theory Spec2Isabelle
  imports Main
begin

section \<open>JSON values\<close>

text \<open>
  The values the transformer walks are the results of parsing a JSON body: \<open>null\<close>,
  booleans, numbers, strings, arrays and plain objects. The transformer never looks
  inside a number, so the carrier of numbers is the type parameter \<open>'n\<close>.

  An object is the list of its own properties in the order \<open>Object.keys\<close> yields
  them. The keys of an object are pairwise different (\<open>wf_json\<close> below says so for a
  whole value). A \<open>char\<close> stands for one code unit of a JavaScript string.
\<close>

datatype 'n json =
    JNull
  | JBoolean bool
  | JNumber 'n
  | JString string
  | JArray "'n json list"
  | JObject "(string \<times> 'n json) list"

fun wf_json :: "'n json \<Rightarrow> bool" where
  "wf_json (JArray xs) = list_all wf_json xs"
| "wf_json (JObject kvs) = (distinct (map fst kvs) \<and> list_all (\<lambda>(k, v). wf_json v) kvs)"
| "wf_json v = True"

section \<open>The key-casing transformer (utils/toCamelCaseParser.js)\<close>

subsection \<open>The regular expression \<open>/([-_][a-z])/gi\<close>\<close>

text \<open>
  The character class \<open>[-_]\<close>, and the class \<open>[a-z]\<close> under the flag \<open>i\<close>: the
  letters \<open>a\<close> to \<open>z\<close> and \<open>A\<close> to \<open>Z\<close>.
\<close>

definition is_delim :: "char \<Rightarrow> bool" where
  "is_delim c = (c = CHR ''-'' \<or> c = CHR ''_'')"

definition is_letter :: "char \<Rightarrow> bool" where
  "is_letter c =
     (let n = (of_char c :: nat) in (65 \<le> n \<and> n \<le> 90) \<or> (97 \<le> n \<and> n \<le> 122))"

text \<open>
  \<open>String.prototype.toUpperCase\<close>, on the characters a match can hold (a delimiter and
  an ASCII letter): a lower-case letter moves to its upper-case one, every other
  character stays.
\<close>

definition upper_char :: "char \<Rightarrow> char" where
  "upper_char c =
     (let n = (of_char c :: nat) in if 97 \<le> n \<and> n \<le> 122 then char_of (n - 32) else c)"

definition toUpperCase :: "string \<Rightarrow> string" where
  "toUpperCase s = map upper_char s"

text \<open>
  The replacer \<open>$1 => $1.toUpperCase().replace('-', '').replace('_', '')\<close>.
  \<open>replace\<close> with a string pattern removes the first occurrence only, which is
  \<open>remove1\<close> for a pattern of one character.
\<close>

definition replacer :: "string \<Rightarrow> string" where
  "replacer m = remove1 CHR ''_'' (remove1 CHR ''-'' (toUpperCase m))"

text \<open>
  \<open>key.replace(/([-_][a-z])/gi, replacer)\<close>: the matches are found from left to
  right and do not overlap; the text between them is copied.
\<close>

fun camelCaseKey :: "string \<Rightarrow> string" where
  "camelCaseKey (d # c # cs) =
     (if is_delim d \<and> is_letter c then replacer [d, c] @ camelCaseKey cs
      else d # camelCaseKey (c # cs))"
| "camelCaseKey cs = cs"

subsection \<open>The traversal\<close>

text \<open>
  \<open>result[key] = v\<close> on a plain object: the value of an existing property is
  replaced where the property stands, a new property is added after the others.
  (JavaScript lists the keys that are array indices first, in ascending order. The
  transformer leaves such a key as it is, and a key it rewrites holds a letter; so on an
  input listed in the order of \<open>Object.keys\<close> a new property of \<open>result\<close> always
  comes last.)
\<close>

fun obj_set :: "(string \<times> 'v) list \<Rightarrow> string \<Rightarrow> 'v \<Rightarrow> (string \<times> 'v) list" where
  "obj_set [] k v = [(k, v)]"
| "obj_set ((k', v') # kvs) k v =
     (if k' = k then (k', v) # kvs else (k', v') # obj_set kvs k v)"

text \<open>
  \<open>toCamelCaseParser\<close>: a value that is not an object, and \<open>null\<close>, is returned as
  it is; an array is mapped; the keys of any other object are reduced, from the empty
  object, each rewritten key being assigned the transformed value \<open>param[key]\<close> of
  its property.
\<close>

fun toCamelCaseParser :: "'n json \<Rightarrow> 'n json" where
  "toCamelCaseParser JNull = JNull"
| "toCamelCaseParser (JBoolean b) = JBoolean b"
| "toCamelCaseParser (JNumber n) = JNumber n"
| "toCamelCaseParser (JString s) = JString s"
| "toCamelCaseParser (JArray xs) = JArray (map toCamelCaseParser xs)"
| "toCamelCaseParser (JObject kvs) =
     JObject (foldl (\<lambda>result (key, v). obj_set result (camelCaseKey key) (toCamelCaseParser v))
                [] kvs)"

subsection \<open>Notions the properties are stated with\<close>

text \<open>The reduction of \<open>toCamelCaseParser\<close> over entries that are already rewritten.\<close>

definition from_entries ::
  "(string \<times> 'v) list \<Rightarrow> (string \<times> 'v) list \<Rightarrow> (string \<times> 'v) list" where
  "from_entries acc es = foldl (\<lambda>result (key, v). obj_set result key v) acc es"

text \<open>A key holds a match of the pattern: a delimiter with a letter right after it.\<close>

fun has_match :: "string \<Rightarrow> bool" where
  "has_match (d # c # cs) = ((is_delim d \<and> is_letter c) \<or> has_match (c # cs))"
| "has_match cs = False"

text \<open>Every key of every object of the value is free of matches.\<close>

fun camel_cased :: "'n json \<Rightarrow> bool" where
  "camel_cased (JArray xs) = list_all camel_cased xs"
| "camel_cased (JObject kvs) = list_all (\<lambda>(k, v). \<not> has_match k \<and> camel_cased v) kvs"
| "camel_cased v = True"

text \<open>
  Two values have the same shape: the same scalars at the leaves, arrays of the same
  length with elements of the same shape, objects with the same number of properties
  whose values, taken in order, have the same shape. The keys are not compared.
\<close>

fun same_shape :: "'n json \<Rightarrow> 'n json \<Rightarrow> bool" where
  "same_shape JNull w = (w = JNull)"
| "same_shape (JBoolean b) w = (w = JBoolean b)"
| "same_shape (JNumber n) w = (w = JNumber n)"
| "same_shape (JString s) w = (w = JString s)"
| "same_shape (JArray xs) w =
     (case w of JArray ys \<Rightarrow> list_all2 same_shape xs ys | _ \<Rightarrow> False)"
| "same_shape (JObject kvs) w =
     (case w of
        JObject kvs' \<Rightarrow> list_all2 (\<lambda>(k, v) (k', v'). same_shape v v') kvs kvs'
      | _ \<Rightarrow> False)"

text \<open>No object of the value has two properties whose keys are rewritten to one key.\<close>

fun collision_free :: "'n json \<Rightarrow> bool" where
  "collision_free (JArray xs) = list_all collision_free xs"
| "collision_free (JObject kvs) =
     (distinct (map (\<lambda>(k, v). camelCaseKey k) kvs) \<and> list_all (\<lambda>(k, v). collision_free v) kvs)"
| "collision_free v = True"

section \<open>Requests\<close>

text \<open>
  A request parameter is the raw string the query-string or path parser produced; the
  sanitizer \<open>default(30)\<close> can put a number in its place. Of a request the model
  keeps the query parameters, the path parameters and whether \<open>req.accepts('html')\<close>
  holds.
\<close>

datatype pvalue = PString string | PNumber int

datatype location = Query | Params

record request =
  query :: "string \<rightharpoonup> pvalue"
  params :: "string \<rightharpoonup> pvalue"
  accepts_html :: bool

text \<open>\<open>req[location][path]\<close>; \<open>None\<close> is \<open>undefined\<close>.\<close>

fun field_value :: "request \<Rightarrow> location \<Rightarrow> string \<Rightarrow> pvalue option" where
  "field_value req Query path = query req path"
| "field_value req Params path = params req path"

fun set_field :: "request \<Rightarrow> location \<Rightarrow> string \<Rightarrow> pvalue option \<Rightarrow> request" where
  "set_field req Query path v = req\<lparr>query := (query req)(path := v)\<rparr>"
| "set_field req Params path v = req\<lparr>params := (params req)(path := v)\<rparr>"

section \<open>express-validator: validators, chains and their runner\<close>

subsection \<open>The validators the routes use\<close>

definition is_digit :: "char \<Rightarrow> bool" where
  "is_digit c = (let n = (of_char c :: nat) in 48 \<le> n \<and> n \<le> 57)"

definition digit_value :: "char \<Rightarrow> nat" where
  "digit_value c = of_char c - 48"

definition decimal_value :: "string \<Rightarrow> nat" where
  "decimal_value ds = foldl (\<lambda>n c. 10 * n + digit_value c) 0 ds"

text \<open>
  \<open>String(value)\<close> for an integer: its decimal digits, the least significant one
  produced first, after a minus sign when it is negative.
\<close>

function decimal_digits :: "nat \<Rightarrow> string \<Rightarrow> string" where
  "decimal_digits n acc =
     (let acc' = char_of (48 + n mod 10) # acc
      in if n div 10 = 0 then acc' else decimal_digits (n div 10) acc')"
  by pat_completeness auto
termination
  by (relation "measure fst") auto

definition String_of_number :: "int \<Rightarrow> string" where
  "String_of_number i =
     (if i < 0 then CHR ''-'' # decimal_digits (nat (- i)) [] else decimal_digits (nat i) [])"

text \<open>
  The runner hands a standard validator the value as a string: \<open>undefined\<close> becomes
  the empty string, a number its decimal writing.
\<close>

fun toString :: "pvalue option \<Rightarrow> string" where
  "toString None = []"
| "toString (Some (PString s)) = s"
| "toString (Some (PNumber i)) = String_of_number i"

text \<open>
  \<open>isInt(str, {min, max})\<close>: the string is an optional sign and one or more digits
  (\<open>/^[-+]?[0-9]+$/\<close>), and its number lies within the bounds that are given.
\<close>

fun int_of_string :: "string \<Rightarrow> int option" where
  "int_of_string [] = None"
| "int_of_string (c # cs) =
     (let neg = (c = CHR ''-'');
          ds = (if c = CHR ''-'' \<or> c = CHR ''+'' then cs else c # cs)
      in if ds \<noteq> [] \<and> list_all is_digit ds
         then Some (if neg then - int (decimal_value ds) else int (decimal_value ds))
         else None)"

definition isInt :: "int option \<Rightarrow> int option \<Rightarrow> string \<Rightarrow> bool" where
  "isInt lo hi str =
     (case int_of_string str of
        None \<Rightarrow> False
      | Some n \<Rightarrow> (case lo of None \<Rightarrow> True | Some m \<Rightarrow> m \<le> n)
                \<and> (case hi of None \<Rightarrow> True | Some m \<Rightarrow> n \<le> m))"

datatype validator =
    IsInt "int option" "int option"
  | IsString
  | IsLength nat
  | IsIn "string list"
  | Matches "string \<Rightarrow> bool"
  | Exists

text \<open>
  \<open>isString\<close> and \<open>exists\<close> are custom validators and see the value itself; the
  others are standard validators and see its string. \<open>isLength\<close> counts the
  characters of the string, which for the code units a \<open>char\<close> can hold is its
  length; \<open>matches\<close> tests the pattern, given here as the predicate it decides.
\<close>

fun validator_passes :: "validator \<Rightarrow> pvalue option \<Rightarrow> bool" where
  "validator_passes (IsInt lo hi) v = isInt lo hi (toString v)"
| "validator_passes IsString v = (case v of Some (PString s) \<Rightarrow> True | _ \<Rightarrow> False)"
| "validator_passes (IsLength m) v = (m \<le> length (toString v))"
| "validator_passes (IsIn vs) v = (toString v \<in> set vs)"
| "validator_passes (Matches re) v = re (toString v)"
| "validator_passes Exists v = (v \<noteq> None)"

subsection \<open>Chains as the routes write them\<close>

datatype chain_call =
    Optional
  | Default pvalue
  | If' chain
  | Check validator
  | Not'
  | WithMessage string
and chain = Chain location string "chain_call list"

subsection \<open>The context a chain builds\<close>

datatype context_item =
    Sanitization pvalue
  | Validation validator bool string
  | Condition chain_context
and chain_context = Context location string bool "context_item list"

text \<open>\<open>withMessage\<close> sets the message of the validator added last.\<close>

fun set_last_message :: "string \<Rightarrow> context_item list \<Rightarrow> context_item list" where
  "set_last_message m [] = []"
| "set_last_message m (item # items) =
     (if list_ex (\<lambda>i. case i of Validation _ _ _ \<Rightarrow> True | _ \<Rightarrow> False) items
      then item # set_last_message m items
      else (case item of
              Validation v negated _ \<Rightarrow> Validation v negated m # items
            | _ \<Rightarrow> item # items))"

text \<open>
  The builder: \<open>optional()\<close> marks the whole context, wherever it stands in the chain;
  \<open>not()\<close> negates the next validator; a validator starts with the message
  \<open>Invalid value\<close>.
\<close>

record builder =
  optional :: bool
  stack :: "context_item list"
  negateNext :: bool

definition addItem :: "context_item \<Rightarrow> builder \<Rightarrow> builder" where
  "addItem item b = b\<lparr>stack := stack b @ [item]\<rparr>"

declare chain_call.case_cong [fundef_cong]

fun build :: "chain \<Rightarrow> chain_context" where
  "build (Chain loc path calls) =
     (let b = foldl (\<lambda>b call.
                 case call of
                   Optional \<Rightarrow> b\<lparr>optional := True\<rparr>
                 | Default d \<Rightarrow> addItem (Sanitization d) b
                 | If' c \<Rightarrow> addItem (Condition (build c)) b
                 | Check v \<Rightarrow>
                     (addItem (Validation v (negateNext b) ''Invalid value'') b)\<lparr>negateNext := False\<rparr>
                 | Not' \<Rightarrow> b\<lparr>negateNext := True\<rparr>
                 | WithMessage m \<Rightarrow> b\<lparr>stack := set_last_message m (stack b)\<rparr>)
               \<lparr>optional = False, stack = [], negateNext = False\<rparr> calls
      in Context loc path (optional b) (stack b))"

subsection \<open>Running a context\<close>

record validation_error =
  err_value :: "pvalue option"
  err_msg :: string
  err_param :: string
  err_location :: location

text \<open>
  \<open>default(d)\<close> replaces \<open>undefined\<close> and the empty string (and \<open>null\<close> and
  \<open>NaN\<close>, which a request parameter never is).
\<close>

fun default_sanitizer :: "pvalue \<Rightarrow> pvalue option \<Rightarrow> pvalue option" where
  "default_sanitizer d None = Some d"
| "default_sanitizer d (Some (PString s)) = (if s = [] then Some d else Some (PString s))"
| "default_sanitizer d (Some (PNumber i)) = Some (PNumber i)"

text \<open>
  The runner of express-validator 6 (the version that reports a failure as
  \<open>{value, msg, param, location}\<close>, the shape the routes document). It selects the
  field of the request and runs the items of the stack in order. For every item it
  takes the instances \<open>context.getData({requiredOnly: true})\<close>: under \<open>optional()\<close>
  an instance whose value is \<open>undefined\<close> is left out, for a sanitizer as for a
  validator. A sanitizer replaces the value, and outside a dry run the new value is
  written to the request. A validator that fails adds an error and the run goes on. A
  condition runs its own chain as a dry run and halts the instance when that chain has
  errors.
\<close>

fun run_items ::
  "bool \<Rightarrow> location \<Rightarrow> string \<Rightarrow> bool \<Rightarrow> context_item list \<Rightarrow> request \<Rightarrow> pvalue option
     \<Rightarrow> validation_error list \<Rightarrow> request \<times> validation_error list"
and run :: "bool \<Rightarrow> chain_context \<Rightarrow> request \<Rightarrow> request \<times> validation_error list"
where
  "run_items dryRun loc path opt [] req v errs = (req, errs)"
| "run_items dryRun loc path opt (item # items) req v errs =
     (if opt \<and> v = None then run_items dryRun loc path opt items req v errs
      else
        (case item of
           Sanitization d \<Rightarrow>
             (let v' = default_sanitizer d v;
                  req' = (if \<not> dryRun \<and> field_value req loc path \<noteq> v'
                          then set_field req loc path v' else req)
              in run_items dryRun loc path opt items req' v' errs)
         | Validation val negated message \<Rightarrow>
             (let result = validator_passes val v;
                  failed = (if negated then result else \<not> result)
              in run_items dryRun loc path opt items req v
                   (if failed
                    then errs @ [\<lparr>err_value = v, err_msg = message, err_param = path,
                                  err_location = loc\<rparr>]
                    else errs))
         | Condition c \<Rightarrow>
             (if snd (run True c req) \<noteq> [] then (req, errs)
              else run_items dryRun loc path opt items req v errs)))"
| "run dryRun (Context loc path opt items) req =
     run_items dryRun loc path opt items req (field_value req loc path) []"

text \<open>
  The chains of a route are middlewares: each runs on the request the ones before it
  left, and \<open>validationResult(req).array()\<close> is the errors of all of them, in order.
\<close>

definition run_validators :: "chain list \<Rightarrow> request \<Rightarrow> request \<times> validation_error list" where
  "run_validators validators req =
     foldl (\<lambda>(req, errors) c. case run False (build c) req of
                                  (req', es) \<Rightarrow> (req', errors @ es))
           (req, []) validators"

text \<open>\<open>validationResult(req).array()\<close> after the chains of a route have run.\<close>

definition validationResult :: "chain list \<Rightarrow> request \<Rightarrow> validation_error list" where
  "validationResult validators req = snd (run_validators validators req)"

section \<open>The upstream API and the response\<close>

text \<open>
  \<open>octokit.request\<close>: the route and the parameters of the call. A parameter that is
  \<open>undefined\<close> is \<open>None\<close>.
\<close>

datatype upstream_call =
    GET_users (since: "pvalue option") (per_page: "pvalue option")
  | GET_search_users (sort: "pvalue option") (page: "pvalue option") (order: "pvalue option")
      (q: string) (per_page: "pvalue option")
  | GET_users_username (username: "pvalue option")

text \<open>
  The promise of \<open>octokit.request\<close> resolves with a response whose \<open>data\<close> is the
  parsed body, or is rejected with an error, whose \<open>status\<close> may be missing.
\<close>

datatype 'n upstream_result = Resolved "'n json" | Rejected "nat option"

text \<open>
  What a response carries: the object \<open>{errors: [...]}\<close>, the object
  \<open>{error: '...'}\<close>, a JSON value, a text, the text Express sends with a status that
  was given as a number, or the text of a redirect.
\<close>

datatype 'n body =
    Errors "validation_error list"
  | Error string
  | Data "'n json"
  | Text string
  | StatusMessage nat
  | Redirecting string

record 'n response =
  statusCode :: nat
  location_header :: "string option"
  body :: "'n body option"

definition new_response :: "'n response" where
  "new_response = \<lparr>statusCode = 200, location_header = None, body = None\<rparr>"

definition res_status :: "nat \<Rightarrow> 'n response \<Rightarrow> 'n response" where
  "res_status code res = res\<lparr>statusCode := code\<rparr>"

text \<open>
  \<open>res.json(obj)\<close>, and \<open>res.send(obj)\<close> of an object literal, which hands the
  object to \<open>res.json\<close>: the body is the object, the status stays.
\<close>

definition res_json :: "'n body \<Rightarrow> 'n response \<Rightarrow> 'n response" where
  "res_json b res = res\<lparr>body := Some b\<rparr>"

text \<open>
  \<open>res.send(value)\<close> of Express 4 with one argument, by the type of the value. A
  number is taken as the status: \<open>res.statusCode\<close> becomes the number and the body
  the message of that status; writing the head then throws when the number is no status
  code. The numbers of a JSON value are not interpreted here, so what Node makes of one
  is the parameter \<open>node_status\<close>: the status code, or \<open>None\<close> when it throws. A
  string is sent as text, \<open>null\<close> as the empty text; a boolean, an array and an
  object go to \<open>res.json\<close>. The result \<open>None\<close> is the exception.
\<close>

fun res_send :: "('n \<Rightarrow> nat option) \<Rightarrow> 'n json \<Rightarrow> 'n response \<Rightarrow> 'n response option" where
  "res_send node_status (JNumber n) res =
     (case node_status n of
        None \<Rightarrow> None
      | Some code \<Rightarrow> Some (res\<lparr>statusCode := code, body := Some (StatusMessage code)\<rparr>))"
| "res_send node_status (JString s) res = Some (res\<lparr>body := Some (Text s)\<rparr>)"
| "res_send node_status JNull res = Some (res\<lparr>body := Some (Text [])\<rparr>)"
| "res_send node_status (JBoolean b) res = Some (res_json (Data (JBoolean b)) res)"
| "res_send node_status (JArray xs) res = Some (res_json (Data (JArray xs)) res)"
| "res_send node_status (JObject kvs) res = Some (res_json (Data (JObject kvs)) res)"

text \<open>
  Node's reading of a status, for bodies whose numbers are integers: a status code has
  three digits, and \<open>writeHead\<close> throws \<open>ERR_HTTP_INVALID_STATUS_CODE\<close> for any
  other number.
\<close>

definition int_status :: "int \<Rightarrow> nat option" where
  "int_status n = (if 100 \<le> n \<and> n \<le> 999 then Some (nat n) else None)"

text \<open>
  \<open>res.redirect(url)\<close> of Express: without a status argument the status is 302; the
  \<open>Location\<close> header is set and a short text names the target.
\<close>

definition res_redirect :: "string \<Rightarrow> 'n response \<Rightarrow> 'n response" where
  "res_redirect url res =
     res\<lparr>statusCode := 302, location_header := Some url, body := Some (Redirecting url)\<rparr>"

text \<open>
  What handling a request did: the upstream calls, in order, and the response that was
  sent (\<open>None\<close>: the handler ended without one).
\<close>

record 'n handled =
  calls :: "upstream_call list"
  response :: "'n response option"

section \<open>The routes (routes/users.js)\<close>

text \<open>
  Modelled from the spec: the pattern \<open>githubUsernameRegex\<close> of the package
  \<open>github-username-regex\<close>, which the route imports and which is not among the
  sources: alphanumeric characters and single hyphens, no leading, trailing or double
  hyphen, 1 to 39 characters.
\<close>

definition is_alnum :: "char \<Rightarrow> bool" where
  "is_alnum c = (is_letter c \<or> is_digit c)"

fun single_hyphens :: "string \<Rightarrow> bool" where
  "single_hyphens [] = True"
| "single_hyphens [c] = is_alnum c"
| "single_hyphens (c # d # cs) =
     ((is_alnum c \<or> (c = CHR ''-'' \<and> is_alnum d)) \<and> single_hyphens (d # cs))"

text \<open>
  Modelled from the spec: a username matches when its first character is alphanumeric,
  every hyphen in it has an alphanumeric character right after it, and it has at most 39
  characters.
\<close>

definition githubUsernameRegex :: "string \<Rightarrow> bool" where
  "githubUsernameRegex s =
     (case s of [] \<Rightarrow> False | c # cs \<Rightarrow> is_alnum c \<and> single_hyphens s \<and> length s \<le> 39)"

text \<open>The chains of \<open>router.get('/users', [...])\<close>, in the order of the array.\<close>

definition perPage_chain :: chain where
  "perPage_chain =
     Chain Query ''perPage''
       [Optional, Default (PNumber 30), Check (IsInt (Some 1) (Some 100)),
        WithMessage ''perPage must be an integer between 1 and 100'']"

definition since_chain :: chain where
  "since_chain =
     Chain Query ''since''
       [Optional, If' (Chain Query ''search'' [Not', Check Exists]), Check (IsInt (Some 0) None),
        WithMessage ''since must be an integer greater than 0'']"

definition search_chain :: chain where
  "search_chain =
     Chain Query ''search''
       [Optional, Check IsString, Check (IsLength 3),
        WithMessage ''search must be a string with at least 3 characters'']"

definition sort_chain :: chain where
  "sort_chain =
     Chain Query ''sort''
       [If' (Chain Query ''search'' [Check Exists]), Optional,
        Check (IsIn [''followers'', ''repositories'', ''joined'']),
        WithMessage
          ''sort must be one of the following values: followers, repositories, joined'']"

definition order_chain :: chain where
  "order_chain =
     Chain Query ''order''
       [If' (Chain Query ''search'' [Check Exists]), Optional,
        Check (IsIn [''asc'', ''desc'']),
        WithMessage ''order must be one of the following values: asc, desc'']"

definition page_chain :: chain where
  "page_chain =
     Chain Query ''page''
       [If' (Chain Query ''search'' [Check Exists]), Optional,
        Check (IsInt (Some 1) None),
        WithMessage ''page must be an integer greater than 0'']"

definition users_validators :: "chain list" where
  "users_validators =
     [perPage_chain, since_chain, search_chain, sort_chain, order_chain, page_chain]"

text \<open>The truth value of a parameter in \<open>if (search)\<close>.\<close>

fun truthy :: "pvalue option \<Rightarrow> bool" where
  "truthy None = False"
| "truthy (Some (PString s)) = (s \<noteq> [])"
| "truthy (Some (PNumber i)) = (i \<noteq> 0)"

text \<open>
  The handler of \<open>GET /users\<close>. The upstream call is awaited, and its data sent,
  outside any \<open>try\<close>: when the promise is rejected, or \<open>res.send\<close> throws, the
  handler ends without a response.
\<close>

definition users_handler ::
  "('n \<Rightarrow> nat option) \<Rightarrow> (upstream_call \<Rightarrow> 'n upstream_result) \<Rightarrow> request
     \<Rightarrow> validation_error list \<Rightarrow> 'n handled" where
  "users_handler node_status octokit req errors =
     (if errors \<noteq> []
      then \<lparr>calls = [], response = Some (res_json (Errors errors) (res_status 400 new_response))\<rparr>
      else
        (let perPage = query req ''perPage''; since = query req ''since'';
             search = query req ''search''; sort = query req ''sort'';
             order = query req ''order''; page = query req ''page'';
             call = (if truthy search
                     then GET_search_users sort page order
                            (toString search @ '' in:login name email type:user'') perPage
                     else GET_users since perPage)
         in case octokit call of
              Resolved data \<Rightarrow>
                \<lparr>calls = [call],
                 response = res_send node_status (toCamelCaseParser data) new_response\<rparr>
            | Rejected e \<Rightarrow> \<lparr>calls = [call], response = None\<rparr>))"

definition users_route ::
  "('n \<Rightarrow> nat option) \<Rightarrow> (upstream_call \<Rightarrow> 'n upstream_result) \<Rightarrow> request \<Rightarrow> 'n handled" where
  "users_route node_status octokit req =
     (case run_validators users_validators req of
        (req', errors) \<Rightarrow> users_handler node_status octokit req' errors)"

definition username_chain :: chain where
  "username_chain =
     Chain Params ''username''
       [Check IsString, Check (Matches githubUsernameRegex),
        WithMessage ''Username must be a valid github username'']"

definition user_validators :: "chain list" where
  "user_validators = [username_chain]"

text \<open>
  The \<open>catch\<close> of the handler of \<open>GET /users/:username\<close>, by the \<open>status\<close> of
  the error it caught (\<open>None\<close>: the error has none).
\<close>

definition user_catch :: "nat option \<Rightarrow> 'n response" where
  "user_catch status =
     (if status = Some 404
      then res_json (Error ''User not found'') (res_status 404 new_response)
      else res_json (Error ''Something went wrong'') (res_status 500 new_response))"

text \<open>
  The handler of \<open>GET /users/:username\<close>. The \<open>try\<close> holds the upstream call and
  \<open>res.send\<close>: a rejected promise is caught with the status of its error, an
  exception of \<open>res.send\<close> with none.
\<close>

definition user_handler ::
  "('n \<Rightarrow> nat option) \<Rightarrow> (upstream_call \<Rightarrow> 'n upstream_result) \<Rightarrow> request
     \<Rightarrow> validation_error list \<Rightarrow> 'n handled" where
  "user_handler node_status octokit req errors =
     (if errors \<noteq> []
      then \<lparr>calls = [], response = Some (res_json (Errors errors) (res_status 400 new_response))\<rparr>
      else
        (let call = GET_users_username (params req ''username'')
         in case octokit call of
              Resolved data \<Rightarrow>
                (case res_send node_status (toCamelCaseParser data) new_response of
                   Some res \<Rightarrow> \<lparr>calls = [call], response = Some res\<rparr>
                 | None \<Rightarrow> \<lparr>calls = [call], response = Some (user_catch None)\<rparr>)
            | Rejected status \<Rightarrow> \<lparr>calls = [call], response = Some (user_catch status)\<rparr>))"

definition user_route ::
  "('n \<Rightarrow> nat option) \<Rightarrow> (upstream_call \<Rightarrow> 'n upstream_result) \<Rightarrow> request \<Rightarrow> 'n handled" where
  "user_route node_status octokit req =
     (case run_validators user_validators req of
        (req', errors) \<Rightarrow> user_handler node_status octokit req' errors)"

section \<open>The fallback middleware (index.js)\<close>

text \<open>
  The middleware mounted after the routes and the documentation: it runs for a request
  that nothing before it answered.
\<close>

definition not_found :: "request \<Rightarrow> 'n response" where
  "not_found req =
     (let res = res_status 404 new_response
      in if accepts_html req then res_redirect ''/docs'' res
         else res_json (Error ''Resource isn't found'') res)"

section \<open>Properties of the key-casing transformer\<close>

subsection \<open>Rewriting one key\<close>

lemma upper_char_delim: "is_delim d \<Longrightarrow> upper_char d = d"
  by (auto simp: is_delim_def upper_char_def)

lemma upper_char_letter_neq:
  assumes "is_letter c"
  shows "upper_char c \<noteq> CHR ''-''" and "upper_char c \<noteq> CHR ''_''"
proof -
  let ?n = "of_char c :: nat"
  have lt: "?n < 256"
    by (metis of_char_mod_256 mod_less_divisor zero_less_numeral)
  have "of_char (upper_char c) \<noteq> (45::nat) \<and> of_char (upper_char c) \<noteq> (95::nat)"
    using assms lt by (auto simp: upper_char_def is_letter_def Let_def)
  then show "upper_char c \<noteq> CHR ''-''" and "upper_char c \<noteq> CHR ''_''" by auto
qed

lemma replacer_match: "is_delim d \<Longrightarrow> is_letter c \<Longrightarrow> replacer [d, c] = [upper_char c]"
  using upper_char_letter_neq[of c]
  by (auto simp: replacer_def toUpperCase_def upper_char_delim is_delim_def)

lemma camelCaseKey_match:
  "is_delim d \<Longrightarrow> is_letter c \<Longrightarrow> camelCaseKey (d # c # cs) = upper_char c # camelCaseKey cs"
  by (simp add: replacer_match)

lemma camelCaseKey_no_match: "\<not> has_match k \<Longrightarrow> camelCaseKey k = k"
  by (induction k rule: camelCaseKey.induct) auto

lemma no_delim_no_match: "list_all (\<lambda>c. \<not> is_delim c) k \<Longrightarrow> \<not> has_match k"
  by (induction k rule: has_match.induct) auto

subsection \<open>Assignment to a property, and the reduction\<close>

lemma obj_set_fresh: "k \<notin> fst ` set r \<Longrightarrow> obj_set r k v = r @ [(k, v)]"
  by (induction r) auto

lemma map_of_obj_set: "map_of (obj_set r k v) = (map_of r)(k \<mapsto> v)"
  by (induction r) (auto simp: fun_upd_twist)

lemma map_fst_obj_set:
  "map fst (obj_set r k v) = (if k \<in> fst ` set r then map fst r else map fst r @ [k])"
  by (induction r) (auto simp: rev_image_eqI)

lemma keys_obj_set: "fst ` set (obj_set r k v) = insert k (fst ` set r)"
proof -
  have "set (map fst (obj_set r k v)) = insert k (set (map fst r))"
    unfolding map_fst_obj_set by auto
  then show ?thesis by simp
qed

lemma distinct_obj_set: "distinct (map fst r) \<Longrightarrow> distinct (map fst (obj_set r k v))"
  by (simp add: map_fst_obj_set)

lemma set_obj_set: "set (obj_set r k v) \<subseteq> insert (k, v) (set r)"
  by (induction r) (auto split: if_splits)

lemma from_entries_Nil [simp]: "from_entries acc [] = acc"
  by (simp add: from_entries_def)

lemma from_entries_Cons [simp]:
  "from_entries acc ((k, v) # es) = from_entries (obj_set acc k v) es"
  by (simp add: from_entries_def)

lemma reduce_as_entries:
  "foldl (\<lambda>result (key, v). obj_set result (g key) (f v)) acc kvs =
   from_entries acc (map (\<lambda>(key, v). (g key, f v)) kvs)"
  unfolding from_entries_def by (induction kvs arbitrary: acc) (auto split: prod.splits)

lemma entries_distinct:
  "distinct (map fst acc) \<Longrightarrow> distinct (map fst (from_entries acc es))"
  by (induction es arbitrary: acc) (auto simp: distinct_obj_set split: prod.splits)

lemma entries_keys: "fst ` set (from_entries acc es) = fst ` set acc \<union> fst ` set es"
proof (induction es arbitrary: acc)
  case Nil
  show ?case by simp
next
  case (Cons e es)
  obtain k v where e: "e = (k, v)" by (cases e)
  show ?case by (simp add: e Cons.IH keys_obj_set)
qed

lemma entries_map_of: "map_of (from_entries acc es) = map_of (rev es @ acc)"
proof (induction es arbitrary: acc)
  case Nil
  show ?case by simp
next
  case (Cons e es)
  obtain k v where e: "e = (k, v)" by (cases e)
  show ?case
    by (simp add: e Cons.IH map_of_obj_set map_add_def fun_eq_iff split: option.splits)
qed

lemma entries_fresh:
  "distinct (map fst es) \<Longrightarrow> fst ` set acc \<inter> fst ` set es = {} \<Longrightarrow>
   from_entries acc es = acc @ es"
proof (induction es arbitrary: acc)
  case Nil
  show ?case by simp
next
  case (Cons e es)
  obtain k v where e: "e = (k, v)" by (cases e)
  have fresh: "k \<notin> fst ` set acc" using Cons.prems(2) by (auto simp: e)
  have "from_entries (acc @ [(k, v)]) es = (acc @ [(k, v)]) @ es"
    using Cons.prems by (intro Cons.IH) (auto simp: e)
  then show ?case by (simp add: e obj_set_fresh[OF fresh])
qed

lemma entries_subset: "set (from_entries acc es) \<subseteq> set acc \<union> set es"
proof (induction es arbitrary: acc)
  case Nil
  show ?case by simp
next
  case (Cons e es)
  obtain k v where e: "e = (k, v)" by (cases e)
  have "set (from_entries (obj_set acc k v) es) \<subseteq> set (obj_set acc k v) \<union> set es"
    by (rule Cons.IH)
  also have "\<dots> \<subseteq> insert (k, v) (set acc) \<union> set es"
    using set_obj_set[of acc k v] by auto
  finally show ?case by (auto simp: e)
qed

subsection \<open>The object the transformer returns\<close>

lemma parser_object_entries:
  assumes "(k', v') \<in> set out" and "toCamelCaseParser (JObject kvs) = JObject out"
  shows "\<exists>k v. (k, v) \<in> set kvs \<and> k' = camelCaseKey k \<and> v' = toCamelCaseParser v"
proof -
  have "out = from_entries [] (map (\<lambda>(key, v). (camelCaseKey key, toCamelCaseParser v)) kvs)"
    using assms(2) by (simp add: reduce_as_entries)
  then have "set out \<subseteq> set (map (\<lambda>(key, v). (camelCaseKey key, toCamelCaseParser v)) kvs)"
    using entries_subset[of "[]" "map (\<lambda>(key, v). (camelCaseKey key, toCamelCaseParser v)) kvs"]
    by simp
  with assms(1)
  have "(k', v') \<in> (\<lambda>(key, v). (camelCaseKey key, toCamelCaseParser v)) ` set kvs"
    by auto
  then show ?thesis by (auto split: prod.splits)
qed

lemma parser_object_distinct:
  "toCamelCaseParser (JObject kvs) = JObject out \<Longrightarrow> distinct (map fst out)"
  using entries_distinct[of "[]"] by (auto simp: reduce_as_entries)

lemma parser_object_keys:
  "toCamelCaseParser (JObject kvs) = JObject out \<Longrightarrow> fst ` set out = camelCaseKey ` fst ` set kvs"
proof -
  assume "toCamelCaseParser (JObject kvs) = JObject out"
  then have "out = from_entries [] (map (\<lambda>(key, v). (camelCaseKey key, toCamelCaseParser v)) kvs)"
    by (simp add: reduce_as_entries)
  then have "fst ` set out =
      fst ` set (map (\<lambda>(key, v). (camelCaseKey key, toCamelCaseParser v)) kvs)"
    by (simp add: entries_keys)
  also have "\<dots> = camelCaseKey ` fst ` set kvs"
    by (force simp: image_iff split: prod.splits)
  finally show ?thesis .
qed

lemma parser_object_map_of:
  "toCamelCaseParser (JObject kvs) = JObject out \<Longrightarrow>
   map_of out = map_of (rev (map (\<lambda>(key, v). (camelCaseKey key, toCamelCaseParser v)) kvs))"
  by (auto simp: reduce_as_entries entries_map_of)

lemma parser_object_collision_free:
  assumes "distinct (map (\<lambda>(k, v). camelCaseKey k) kvs)"
  shows "toCamelCaseParser (JObject kvs) =
         JObject (map (\<lambda>(k, v). (camelCaseKey k, toCamelCaseParser v)) kvs)"
proof -
  have eq: "map fst (map (\<lambda>(k, v). (camelCaseKey k, toCamelCaseParser v)) kvs)
        = map (\<lambda>(k, v). camelCaseKey k) kvs"
    by (auto split: prod.splits)
  show ?thesis
    using entries_fresh[of "map (\<lambda>(k, v). (camelCaseKey k, toCamelCaseParser v)) kvs" "[]"] assms
    unfolding eq by (simp add: reduce_as_entries)
qed

lemma wf_toCamelCaseParser: "wf_json (toCamelCaseParser V)"
proof (induction V rule: toCamelCaseParser.induct)
  case (5 xs)
  then show ?case by (simp add: list_all_iff)
next
  case (6 kvs)
  obtain out where out: "toCamelCaseParser (JObject kvs) = JObject out" by simp
  have "wf_json v'" if "(k', v') \<in> set out" for k' v'
    using parser_object_entries[OF that out] "6.IH" by blast
  then have "list_all (\<lambda>(k, v). wf_json v) out" by (auto simp: list_all_iff)
  then show ?case unfolding out using parser_object_distinct[OF out] by simp
qed simp_all

lemma camel_cased_toCamelCaseParser: "camel_cased V \<Longrightarrow> camel_cased (toCamelCaseParser V)"
proof (induction V rule: toCamelCaseParser.induct)
  case (5 xs)
  then show ?case by (simp add: list_all_iff)
next
  case (6 kvs)
  obtain out where out: "toCamelCaseParser (JObject kvs) = JObject out" by simp
  have "\<not> has_match k' \<and> camel_cased v'" if mem: "(k', v') \<in> set out" for k' v'
  proof -
    obtain k v where kv: "(k, v) \<in> set kvs" "k' = camelCaseKey k" "v' = toCamelCaseParser v"
      using parser_object_entries[OF mem out] by blast
    have "\<not> has_match k" "camel_cased v" using "6.prems" kv(1) by (auto simp: list_all_iff)
    then show ?thesis using kv "6.IH"[OF kv(1) refl] by (simp add: camelCaseKey_no_match)
  qed
  then have "list_all (\<lambda>(k, v). \<not> has_match k \<and> camel_cased v) out"
    by (auto simp: list_all_iff)
  then show ?case unfolding out by simp
qed simp_all

lemma toCamelCaseParser_fixed: "wf_json W \<Longrightarrow> camel_cased W \<Longrightarrow> toCamelCaseParser W = W"
proof (induction W rule: toCamelCaseParser.induct)
  case (5 xs)
  have "toCamelCaseParser x = x" if mem: "x \<in> set xs" for x
  proof -
    have "wf_json x" "camel_cased x" using "5.prems" mem by (auto simp: list_all_iff)
    then show ?thesis by (rule "5.IH"[OF mem])
  qed
  then have "map toCamelCaseParser xs = xs" by (rule map_idI)
  then show ?case by simp
next
  case (6 kvs)
  let ?g = "\<lambda>(k, v). (camelCaseKey k, toCamelCaseParser v)"
  have same: "?g e = e" if mem: "e \<in> set kvs" for e
  proof -
    obtain k v where e: "e = (k, v)" by (cases e)
    have kv: "(k, v) \<in> set kvs" using mem e by simp
    have "\<not> has_match k" "camel_cased v" "wf_json v"
      using "6.prems" kv by (auto simp: list_all_iff)
    then have "camelCaseKey k = k" "toCamelCaseParser v = v"
      using "6.IH"[OF kv refl] by (simp_all add: camelCaseKey_no_match)
    then show ?thesis by (simp add: e)
  qed
  have m: "map ?g kvs = kvs" using same by (rule map_idI)
  have "map (\<lambda>(k, v). camelCaseKey k) kvs = map fst (map ?g kvs)"
    by (auto split: prod.splits)
  also have "\<dots> = map fst kvs" by (simp only: m)
  finally have keys: "map (\<lambda>(k, v). camelCaseKey k) kvs = map fst kvs" .
  have "distinct (map fst kvs)" using "6.prems"(1) by simp
  then have "distinct (map (\<lambda>(k, v). camelCaseKey k) kvs)" by (simp only: keys)
  from parser_object_collision_free[OF this]
  have "toCamelCaseParser (JObject kvs) = JObject (map ?g kvs)" .
  then show ?case by (simp only: m)
qed simp_all

lemma count_list_distinct: "distinct xs \<Longrightarrow> x \<in> set xs \<Longrightarrow> count_list xs x = 1"
  by (induction xs) auto

lemma map_of_rev_last:
  "filter (\<lambda>e. fst e = K) es \<noteq> [] \<Longrightarrow>
   map_of (rev es) K = Some (snd (last (filter (\<lambda>e. fst e = K) es)))"
proof (induction es rule: rev_induct)
  case Nil
  then show ?case by simp
next
  case (snoc e es)
  show ?case
  proof (cases "fst e = K")
    case True
    then show ?thesis by (cases e) simp
  next
    case False
    with snoc show ?thesis by (cases e) simp
  qed
qed

subsection \<open>Evaluating the transformer\<close>

lemma upper_char_range:
  assumes "is_letter c"
  shows "65 \<le> (of_char (upper_char c) :: nat) \<and> (of_char (upper_char c) :: nat) \<le> 90"
proof -
  have lt: "(of_char c :: nat) < 256"
    by (metis of_char_mod_256 mod_less_divisor zero_less_numeral)
  show ?thesis using assms lt by (auto simp: upper_char_def is_letter_def Let_def)
qed

lemma spec_example_keys:
  "camelCaseKey ''site_admin'' = ''siteAdmin''"
  "camelCaseKey ''avatar-url'' = ''avatarUrl''"
  "camelCaseKey ''nested_obj'' = ''nestedObj''"
  "camelCaseKey ''gravatar_id'' = ''gravatarId''"
  by code_simp+

lemma spec_example:
  "toCamelCaseParser
     (JObject [(''site_admin'', JBoolean True), (''avatar-url'', JString ''x''),
               (''nested_obj'', JObject [(''gravatar_id'', JString ''y'')])])
   = JObject [(''siteAdmin'', JBoolean True), (''avatarUrl'', JString ''x''),
              (''nestedObj'', JObject [(''gravatarId'', JString ''y'')])]"
  by (simp add: spec_example_keys del: camelCaseKey.simps)

text \<open>The letter a match is replaced by, in character codes.\<close>

lemma upper_char_letter:
  assumes "is_letter c"
  shows "(of_char (upper_char c) :: nat)
         = (if 97 \<le> (of_char c :: nat) then of_char c - 32 else of_char c)"
proof -
  have lt: "(of_char c :: nat) < 256"
    by (metis of_char_mod_256 mod_less_divisor zero_less_numeral)
  show ?thesis using assms lt by (auto simp: upper_char_def is_letter_def Let_def)
qed

text \<open>A match behind a prefix without delimiters: the prefix is copied.\<close>

lemma camelCaseKey_prefix:
  assumes "list_all (\<lambda>x. \<not> is_delim x) p" and "is_delim h" and "is_letter l"
  shows "camelCaseKey (p @ h # l # ls) = p @ upper_char l # camelCaseKey ls"
  using assms
proof (induction p)
  case Nil
  then show ?case using camelCaseKey_match[of h l ls] by simp
next
  case (Cons a p)
  then have "camelCaseKey (p @ h # l # ls) = p @ upper_char l # camelCaseKey ls"
    and a: "\<not> is_delim a"
    by simp_all
  then show ?case by (cases p) simp_all
qed

lemma several_matches:
  "camelCaseKey ''received_events_url'' = ''receivedEventsUrl''"
  "camelCaseKey ''a-b_c-D'' = ''aBCD''"
  "camelCaseKey ''x__y_1-z-'' = ''x_Y_1Z-''"
  by code_simp+

lemma parser_object_origin:
  assumes "toCamelCaseParser (JObject kvs) = JObject out"
  shows "list_all (\<lambda>(k', v'). list_ex (\<lambda>(k, v). k' = camelCaseKey k \<and> v' = toCamelCaseParser v) kvs) out"
proof -
  have "list_ex (\<lambda>(k, v). k' = camelCaseKey k \<and> v' = toCamelCaseParser v) kvs"
    if mem: "(k', v') \<in> set out" for k' v'
    using parser_object_entries[OF mem assms] by (auto simp: list_ex_iff)
  then show ?thesis by (auto simp: list_all_iff)
qed

section \<open>Properties of the validation chains and the routes\<close>

subsection \<open>The chains of the routes, built and run\<close>

lemma build_perPage:
  "build perPage_chain =
     Context Query ''perPage'' True
       [Sanitization (PNumber 30),
        Validation (IsInt (Some 1) (Some 100)) False
          ''perPage must be an integer between 1 and 100'']"
  by (simp add: perPage_chain_def addItem_def)

lemma build_since:
  "build since_chain =
     Context Query ''since'' True
       [Condition (Context Query ''search'' False [Validation Exists True ''Invalid value'']),
        Validation (IsInt (Some 0) None) False ''since must be an integer greater than 0'']"
  by (simp add: since_chain_def addItem_def)

lemma build_search:
  "build search_chain =
     Context Query ''search'' True
       [Validation IsString False ''Invalid value'',
        Validation (IsLength 3) False ''search must be a string with at least 3 characters'']"
  by (simp add: search_chain_def addItem_def)

lemma build_sort:
  "build sort_chain =
     Context Query ''sort'' True
       [Condition (Context Query ''search'' False [Validation Exists False ''Invalid value'']),
        Validation (IsIn [''followers'', ''repositories'', ''joined'']) False
          ''sort must be one of the following values: followers, repositories, joined'']"
  by (simp add: sort_chain_def addItem_def)

lemma build_order:
  "build order_chain =
     Context Query ''order'' True
       [Condition (Context Query ''search'' False [Validation Exists False ''Invalid value'']),
        Validation (IsIn [''asc'', ''desc'']) False
          ''order must be one of the following values: asc, desc'']"
  by (simp add: order_chain_def addItem_def)

lemma build_page:
  "build page_chain =
     Context Query ''page'' True
       [Condition (Context Query ''search'' False [Validation Exists False ''Invalid value'']),
        Validation (IsInt (Some 1) None) False ''page must be an integer greater than 0'']"
  by (simp add: page_chain_def addItem_def)

lemma build_username:
  "build username_chain =
     Context Params ''username'' False
       [Validation IsString False ''Invalid value'',
        Validation (Matches githubUsernameRegex) False
          ''Username must be a valid github username'']"
  by (simp add: username_chain_def addItem_def)

lemma isInt_30: "isInt (Some 1) (Some 100) (String_of_number 30)"
  by code_simp

lemma run_perPage:
  "run dryRun (build perPage_chain) req =
     (case query req ''perPage'' of
        None \<Rightarrow> (req, [])
      | Some v \<Rightarrow>
          if v = PString []
          then (if dryRun then req else set_field req Query ''perPage'' (Some (PNumber 30)), [])
          else (req,
                if isInt (Some 1) (Some 100) (toString (Some v)) then []
                else [\<lparr>err_value = Some v,
                       err_msg = ''perPage must be an integer between 1 and 100'',
                       err_param = ''perPage'', err_location = Query\<rparr>]))"
proof (cases "query req ''perPage''")
  case None
  then show ?thesis by (simp add: build_perPage)
next
  case (Some v)
  show ?thesis
  proof (cases v)
    case (PString s)
    with Some show ?thesis by (simp add: build_perPage isInt_30 Let_def)
  next
    case (PNumber i)
    with Some show ?thesis by (simp add: build_perPage Let_def)
  qed
qed

lemma run_since:
  "run dryRun (build since_chain) req =
     (req,
      if query req ''since'' = None \<or> query req ''search'' \<noteq> None
         \<or> isInt (Some 0) None (toString (query req ''since''))
      then []
      else [\<lparr>err_value = query req ''since'',
             err_msg = ''since must be an integer greater than 0'',
             err_param = ''since'', err_location = Query\<rparr>])"
  by (simp add: build_since Let_def)

lemma run_search:
  "run dryRun (build search_chain) req =
     (req,
      if query req ''search'' = None then []
      else (if validator_passes IsString (query req ''search'') then []
            else [\<lparr>err_value = query req ''search'', err_msg = ''Invalid value'',
                   err_param = ''search'', err_location = Query\<rparr>])
         @ (if 3 \<le> length (toString (query req ''search'')) then []
            else [\<lparr>err_value = query req ''search'',
                   err_msg = ''search must be a string with at least 3 characters'',
                   err_param = ''search'', err_location = Query\<rparr>]))"
  by (simp add: build_search Let_def)

lemma run_sort:
  "run dryRun (build sort_chain) req =
     (req,
      if query req ''sort'' = None \<or> query req ''search'' = None
         \<or> toString (query req ''sort'') \<in> set [''followers'', ''repositories'', ''joined'']
      then []
      else [\<lparr>err_value = query req ''sort'',
             err_msg = ''sort must be one of the following values: followers, repositories, joined'',
             err_param = ''sort'', err_location = Query\<rparr>])"
  by (simp add: build_sort Let_def del: toString.simps)

lemma run_order:
  "run dryRun (build order_chain) req =
     (req,
      if query req ''order'' = None \<or> query req ''search'' = None
         \<or> toString (query req ''order'') \<in> set [''asc'', ''desc'']
      then []
      else [\<lparr>err_value = query req ''order'',
             err_msg = ''order must be one of the following values: asc, desc'',
             err_param = ''order'', err_location = Query\<rparr>])"
  by (simp add: build_order Let_def del: toString.simps)

lemma run_page:
  "run dryRun (build page_chain) req =
     (req,
      if query req ''page'' = None \<or> query req ''search'' = None
         \<or> isInt (Some 1) None (toString (query req ''page''))
      then []
      else [\<lparr>err_value = query req ''page'',
             err_msg = ''page must be an integer greater than 0'',
             err_param = ''page'', err_location = Query\<rparr>])"
  by (simp add: build_page Let_def)

lemma run_username:
  "run dryRun (build username_chain) req =
     (req,
      (if validator_passes IsString (params req ''username'') then []
       else [\<lparr>err_value = params req ''username'', err_msg = ''Invalid value'',
              err_param = ''username'', err_location = Params\<rparr>])
      @ (if githubUsernameRegex (toString (params req ''username'')) then []
         else [\<lparr>err_value = params req ''username'',
                err_msg = ''Username must be a valid github username'',
                err_param = ''username'', err_location = Params\<rparr>]))"
  by (simp add: build_username Let_def)

text \<open>The failures of a chain depend on its own field and on \<open>search\<close> alone.\<close>

lemma perPage_errors_cong:
  "query r1 ''perPage'' = query r2 ''perPage'' \<Longrightarrow>
   snd (run d (build perPage_chain) r1) = snd (run d (build perPage_chain) r2)"
  unfolding run_perPage by (simp split: option.splits)

lemma since_errors_cong:
  "query r1 ''since'' = query r2 ''since'' \<Longrightarrow> query r1 ''search'' = query r2 ''search'' \<Longrightarrow>
   snd (run d (build since_chain) r1) = snd (run d (build since_chain) r2)"
  unfolding run_since by (simp only: snd_conv)

lemma search_errors_cong:
  "query r1 ''search'' = query r2 ''search'' \<Longrightarrow>
   snd (run d (build search_chain) r1) = snd (run d (build search_chain) r2)"
  unfolding run_search by (simp only: snd_conv)

lemma sort_errors_cong:
  "query r1 ''sort'' = query r2 ''sort'' \<Longrightarrow> query r1 ''search'' = query r2 ''search'' \<Longrightarrow>
   snd (run d (build sort_chain) r1) = snd (run d (build sort_chain) r2)"
  unfolding run_sort by (simp only: snd_conv)

lemma order_errors_cong:
  "query r1 ''order'' = query r2 ''order'' \<Longrightarrow> query r1 ''search'' = query r2 ''search'' \<Longrightarrow>
   snd (run d (build order_chain) r1) = snd (run d (build order_chain) r2)"
  unfolding run_order by (simp only: snd_conv)

lemma page_errors_cong:
  "query r1 ''page'' = query r2 ''page'' \<Longrightarrow> query r1 ''search'' = query r2 ''search'' \<Longrightarrow>
   snd (run d (build page_chain) r1) = snd (run d (build page_chain) r2)"
  unfolding run_page by (simp only: snd_conv)

lemma guarded_skipped:
  "query req ''search'' = None \<Longrightarrow> snd (run d (build sort_chain) req) = []"
  "query req ''search'' = None \<Longrightarrow> snd (run d (build order_chain) req) = []"
  "query req ''search'' = None \<Longrightarrow> snd (run d (build page_chain) req) = []"
  "query req ''search'' \<noteq> None \<Longrightarrow> snd (run d (build since_chain) req) = []"
  unfolding run_sort run_order run_page run_since by simp_all

lemma query_set_perPage [simp]:
  "path \<noteq> ''perPage'' \<Longrightarrow> query (set_field req Query ''perPage'' v) path = query req path"
  by simp

lemma run_validators_acc:
  "foldl (\<lambda>(req, errors) c. case run False (build c) req of (req', es) \<Rightarrow> (req', errors @ es))
         (req, acc) cs =
   (case foldl (\<lambda>(req, errors) c. case run False (build c) req of (req', es) \<Rightarrow> (req', errors @ es))
           (req, []) cs of
      (req', es) \<Rightarrow> (req', acc @ es))"
proof (induction cs arbitrary: req acc)
  case Nil
  show ?case by simp
next
  case (Cons c cs)
  obtain r e where c: "run False (build c) req = (r, e)" by force
  show ?case
    by (simp add: c Cons.IH[of r "acc @ e"] Cons.IH[of r e] split: prod.splits)
qed

lemma run_validators_Nil: "run_validators [] req = (req, [])"
  by (simp add: run_validators_def)

lemma run_validators_Cons:
  "run_validators (c # cs) req =
     (case run False (build c) req of
        (req', es) \<Rightarrow> (case run_validators cs req' of (req'', es') \<Rightarrow> (req'', es @ es')))"
proof -
  obtain r e where c: "run False (build c) req = (r, e)" by force
  show ?thesis
    unfolding run_validators_def by (simp add: c run_validators_acc[of r e cs])
qed

lemma run_users_validators:
  "run_validators users_validators req =
     (fst (run False (build perPage_chain) req),
      snd (run False (build perPage_chain) req) @ snd (run False (build since_chain) req)
      @ snd (run False (build search_chain) req) @ snd (run False (build sort_chain) req)
      @ snd (run False (build order_chain) req) @ snd (run False (build page_chain) req))"
proof -
  obtain req' es where p: "run False (build perPage_chain) req = (req', es)" by force
  have q: "query req' path = query req path" if "path \<noteq> ''perPage''" for path
    using p that by (auto simp: run_perPage split: option.splits if_splits)
  have same: "query req' ''since'' = query req ''since''" "query req' ''search'' = query req ''search''"
    "query req' ''sort'' = query req ''sort''" "query req' ''order'' = query req ''order''"
    "query req' ''page'' = query req ''page''"
    by (simp_all add: q)
  have r2: "run False (build since_chain) req' = (req', snd (run False (build since_chain) req))"
    unfolding run_since same by simp
  have r3: "run False (build search_chain) req' = (req', snd (run False (build search_chain) req))"
    unfolding run_search same by simp
  have r4: "run False (build sort_chain) req' = (req', snd (run False (build sort_chain) req))"
    unfolding run_sort same by simp
  have r5: "run False (build order_chain) req' = (req', snd (run False (build order_chain) req))"
    unfolding run_order same by simp
  have r6: "run False (build page_chain) req' = (req', snd (run False (build page_chain) req))"
    unfolding run_page same by simp
  show ?thesis
    unfolding users_validators_def
    by (simp only: run_validators_Cons run_validators_Nil p r2 r3 r4 r5 r6 prod.case fst_conv
        snd_conv append_Nil2)
qed

lemma run_user_validators:
  "run_validators user_validators req = (req, snd (run False (build username_chain) req))"
  unfolding user_validators_def
  by (simp only: run_validators_Cons run_validators_Nil run_username prod.case snd_conv append_Nil2)

lemma users_all_chains:
  "validationResult users_validators req =
     concat (map (\<lambda>c. snd (run False (build c) req)) users_validators)"
  unfolding validationResult_def run_users_validators by (simp add: users_validators_def)

lemma user_all_chains:
  "validationResult user_validators req =
     concat (map (\<lambda>c. snd (run False (build c) req)) user_validators)"
  unfolding validationResult_def run_user_validators by (simp add: user_validators_def)

lemma users_route_rejected:
  "validationResult users_validators req \<noteq> [] \<Longrightarrow>
   users_route node_status octokit req =
     \<lparr>calls = [],
      response = Some \<lparr>statusCode = 400, location_header = None,
                        body = Some (Errors (validationResult users_validators req))\<rparr>\<rparr>"
  unfolding validationResult_def users_route_def
  by (cases "run_validators users_validators req")
     (simp add: users_handler_def res_json_def res_status_def new_response_def)

lemma user_route_rejected:
  "validationResult user_validators req \<noteq> [] \<Longrightarrow>
   user_route node_status octokit req =
     \<lparr>calls = [],
      response = Some \<lparr>statusCode = 400, location_header = None,
                        body = Some (Errors (validationResult user_validators req))\<rparr>\<rparr>"
  unfolding validationResult_def user_route_def
  by (cases "run_validators user_validators req")
     (simp add: user_handler_def res_json_def res_status_def new_response_def)

text \<open>
  What \<open>res.send\<close> makes of a transformed object or array: the JSON body, the status
  untouched.
\<close>

lemma res_send_object:
  "res_send node_status (toCamelCaseParser (JObject kvs)) res
   = Some (res\<lparr>body := Some (Data (toCamelCaseParser (JObject kvs)))\<rparr>)"
  by (simp add: res_json_def)

lemma res_send_array:
  "res_send node_status (toCamelCaseParser (JArray xs)) res
   = Some (res\<lparr>body := Some (Data (toCamelCaseParser (JArray xs)))\<rparr>)"
  by (simp add: res_json_def)

text \<open>
  A number as the data of the user: \<open>res.send\<close> takes it as the status, and when Node
  refuses it the exception is caught and answered with 500.
\<close>

lemma user_route_number:
  assumes "params req ''username'' = Some (PString u)" and "githubUsernameRegex u"
    and "octokit (GET_users_username (Some (PString u))) = Resolved (JNumber n)"
  shows "user_route node_status octokit req =
     \<lparr>calls = [GET_users_username (Some (PString u))],
      response = Some
        (case node_status n of
           Some code \<Rightarrow> \<lparr>statusCode = code, location_header = None,
                          body = Some (StatusMessage code)\<rparr>
         | None \<Rightarrow> \<lparr>statusCode = 500, location_header = None,
                     body = Some (Error ''Something went wrong'')\<rparr>)\<rparr>"
proof -
  have r: "run_validators user_validators req = (req, [])"
    unfolding run_user_validators run_username using assms by simp
  show ?thesis
    unfolding user_route_def r using assms
    by (simp add: user_handler_def user_catch_def res_json_def res_status_def new_response_def
        split: option.splits)
qed

lemma user_route_number_examples:
  "user_route int_status (\<lambda>c. Resolved (JNumber 404))
     \<lparr>query = Map.empty, params = [''username'' \<mapsto> PString ''octo-cat''], accepts_html = False\<rparr>
   = \<lparr>calls = [GET_users_username (Some (PString ''octo-cat''))],
      response = Some \<lparr>statusCode = 404, location_header = None,
                        body = Some (StatusMessage 404)\<rparr>\<rparr>"
  "user_route int_status (\<lambda>c. Resolved (JNumber 7))
     \<lparr>query = Map.empty, params = [''username'' \<mapsto> PString ''octo-cat''], accepts_html = False\<rparr>
   = \<lparr>calls = [GET_users_username (Some (PString ''octo-cat''))],
      response = Some \<lparr>statusCode = 500, location_header = None,
                        body = Some (Error ''Something went wrong'')\<rparr>\<rparr>"
proof -
  have g: "githubUsernameRegex ''octo-cat''" by code_simp
  show "user_route int_status (\<lambda>c. Resolved (JNumber 404))
     \<lparr>query = Map.empty, params = [''username'' \<mapsto> PString ''octo-cat''], accepts_html = False\<rparr>
   = \<lparr>calls = [GET_users_username (Some (PString ''octo-cat''))],
      response = Some \<lparr>statusCode = 404, location_header = None,
                        body = Some (StatusMessage 404)\<rparr>\<rparr>"
    using user_route_number[where u = "''octo-cat''" and n = 404 and node_status = int_status
        and octokit = "\<lambda>c. Resolved (JNumber 404)", OF _ g]
    by (simp add: int_status_def)
  show "user_route int_status (\<lambda>c. Resolved (JNumber 7))
     \<lparr>query = Map.empty, params = [''username'' \<mapsto> PString ''octo-cat''], accepts_html = False\<rparr>
   = \<lparr>calls = [GET_users_username (Some (PString ''octo-cat''))],
      response = Some \<lparr>statusCode = 500, location_header = None,
                        body = Some (Error ''Something went wrong'')\<rparr>\<rparr>"
    using user_route_number[where u = "''octo-cat''" and n = 7 and node_status = int_status
        and octokit = "\<lambda>c. Resolved (JNumber 7)", OF _ g]
    by (simp add: int_status_def)
qed

text \<open>
  The value of \<open>perPage\<close> the handler reads after the chains have run, the one call it
  makes and what it sends.
\<close>

lemma users_route_accepted:
  assumes "validationResult users_validators req = []"
  shows "users_route node_status octokit req =
     (let per_page = (if query req ''perPage'' = Some (PString []) then Some (PNumber 30)
                      else query req ''perPage'');
          call = (if query req ''search'' \<noteq> None
                  then GET_search_users (query req ''sort'') (query req ''page'')
                         (query req ''order'')
                         (toString (query req ''search'') @ '' in:login name email type:user'')
                         per_page
                  else GET_users (query req ''since'') per_page)
      in case octokit call of
           Resolved data \<Rightarrow>
             \<lparr>calls = [call],
              response = res_send node_status (toCamelCaseParser data)
                           \<lparr>statusCode = 200, location_header = None, body = None\<rparr>\<rparr>
         | Rejected e \<Rightarrow> \<lparr>calls = [call], response = None\<rparr>)"
proof -
  obtain req' where r: "run_validators users_validators req = (req', [])"
    using assms unfolding validationResult_def by (cases "run_validators users_validators req") simp
  have req': "req' = fst (run False (build perPage_chain) req)"
    using r unfolding run_users_validators by simp
  have q: "query req' path = query req path" if "path \<noteq> ''perPage''" for path
    using that unfolding req' by (auto simp: run_perPage split: option.splits if_splits)
  have pp: "query req' ''perPage'' =
       (if query req ''perPage'' = Some (PString []) then Some (PNumber 30)
        else query req ''perPage'')"
    unfolding req' by (auto simp: run_perPage split: option.splits if_splits)
  have "snd (run False (build search_chain) req) = []"
    using r unfolding run_users_validators by simp
  then have t: "truthy (query req ''search'') \<longleftrightarrow> query req ''search'' \<noteq> None"
    unfolding run_search
    by (cases "query req ''search''"; cases "the (query req ''search'')")
       (auto split: if_splits)
  have h: "users_route node_status octokit req = users_handler node_status octokit req' []"
    unfolding users_route_def r by simp
  show ?thesis
    unfolding h users_handler_def new_response_def Let_def q[of "''since''", simplified]
      q[of "''search''", simplified] q[of "''sort''", simplified] q[of "''order''", simplified]
      q[of "''page''", simplified] pp t
    by (simp split: upstream_result.splits del: toString.simps)
qed

lemma query_update [simp]: "query (req\<lparr>query := f\<rparr>) = f"
  by simp

lemma validation_guarded_irrelevant:
  assumes s: "query req ''search'' = None"
    and p: "path = ''sort'' \<or> path = ''order'' \<or> path = ''page''"
  shows "validationResult users_validators (req\<lparr>query := (query req)(path := x)\<rparr>)
         = validationResult users_validators req"
proof -
  let ?r = "req\<lparr>query := (query req)(path := x)\<rparr>"
  have q: "query ?r k = query req k" if "k \<noteq> path" for k using that by simp
  have s': "query ?r ''search'' = None" using s p by auto
  have e1: "snd (run False (build perPage_chain) ?r) = snd (run False (build perPage_chain) req)"
    using p by (intro perPage_errors_cong q) auto
  have e2: "snd (run False (build since_chain) ?r) = snd (run False (build since_chain) req)"
    using p by (intro since_errors_cong q) auto
  have e3: "snd (run False (build search_chain) ?r) = snd (run False (build search_chain) req)"
    using p by (intro search_errors_cong q) auto
  show ?thesis
    unfolding validationResult_def run_users_validators snd_conv e1 e2 e3
      guarded_skipped(1-3)[OF s] guarded_skipped(1-3)[OF s'] ..
qed

lemma validation_since_irrelevant:
  assumes s: "query req ''search'' \<noteq> None"
  shows "validationResult users_validators (req\<lparr>query := (query req)(''since'' := x)\<rparr>)
         = validationResult users_validators req"
proof -
  let ?r = "req\<lparr>query := (query req)(''since'' := x)\<rparr>"
  have q: "query ?r k = query req k" if "k \<noteq> ''since''" for k using that by simp
  have s': "query ?r ''search'' \<noteq> None" using s by simp
  have e1: "snd (run False (build perPage_chain) ?r) = snd (run False (build perPage_chain) req)"
    by (intro perPage_errors_cong q) simp
  have e3: "snd (run False (build search_chain) ?r) = snd (run False (build search_chain) req)"
    by (intro search_errors_cong q) simp
  have e4: "snd (run False (build sort_chain) ?r) = snd (run False (build sort_chain) req)"
    by (intro sort_errors_cong q) simp_all
  have e5: "snd (run False (build order_chain) ?r) = snd (run False (build order_chain) req)"
    by (intro order_errors_cong q) simp_all
  have e6: "snd (run False (build page_chain) ?r) = snd (run False (build page_chain) req)"
    by (intro page_errors_cong q) simp_all
  show ?thesis
    unfolding validationResult_def run_users_validators snd_conv e1 e3 e4 e5 e6
      guarded_skipped(4)[OF s] guarded_skipped(4)[OF s'] ..
qed

lemma isInt_examples:
  "\<not> isInt (Some 0) None ''x''"
  "\<not> isInt (Some 1) None ''0''"
  "\<not> isInt (Some 1) (Some 100) ''101''"
  "isInt (Some 1) (Some 100) ''100''"
  by code_simp+

section \<open>Claims about the key-casing transformer\<close>

text \<open>
  Claim C1, as stated: for every JSON-like value, the output of the transformer has the
  shape of its input, and every object of the output has as many keys as the object it
  comes from. The object \<open>{"a_b": true, "a-b": false}\<close> refutes it: both keys are
  rewritten to \<open>aB\<close>, and the output \<open>{"aB": false}\<close> has one key.
\<close>

theorem key_count_counterexample:
  "toCamelCaseParser (JObject [(''a_b'', JBoolean True), (''a-b'', JBoolean False)] :: int json)
     = JObject [(''aB'', JBoolean False)]
   \<and> \<not> same_shape (JObject [(''a_b'', JBoolean True), (''a-b'', JBoolean False)] :: int json)
         (toCamelCaseParser (JObject [(''a_b'', JBoolean True), (''a-b'', JBoolean False)]))"
  by code_simp

text \<open>
  Claim C1, amended: for every JSON-like value in which no object has two keys that are
  rewritten to the same key, the output of the transformer has the shape of the input:
  the same scalars at the leaves, arrays of the same length, the same nesting, and
  objects with the same number of keys, the keys alone being respelt.
\<close>

theorem toCamelCaseParser_same_shape:
  "collision_free V \<Longrightarrow> same_shape V (toCamelCaseParser V)"
proof (induction V rule: toCamelCaseParser.induct)
  case (5 xs)
  then show ?case by (simp add: list_all_iff list_all2_map2 list_all2_same)
next
  case (6 kvs)
  have d: "distinct (map (\<lambda>(k, v). camelCaseKey k) kvs)" using "6.prems" by simp
  have "same_shape v (toCamelCaseParser v)" if "(k, v) \<in> set kvs" for k v
    using "6.IH"[OF that refl] "6.prems" that by (auto simp: list_all_iff)
  then have "list_all2 (\<lambda>(k, v) (k', v'). same_shape v v') kvs
               (map (\<lambda>(k, v). (camelCaseKey k, toCamelCaseParser v)) kvs)"
    by (auto simp: list_all2_map2 list_all2_same)
  then show ?case unfolding parser_object_collision_free[OF d] by simp
qed simp_all

theorem toCamelCaseParser_same_shape_witness:
  "collision_free (JArray [JObject [(''node_id'', JString ''1''), (''avatar-url'', JNull)],
                           JObject [(''node_id'', JString ''2''), (''site_admin'', JArray [])]] :: int json)
   \<and> same_shape (JArray [JObject [(''node_id'', JString ''1''), (''avatar-url'', JNull)],
                          JObject [(''node_id'', JString ''2''), (''site_admin'', JArray [])]] :: int json)
        (toCamelCaseParser
          (JArray [JObject [(''node_id'', JString ''1''), (''avatar-url'', JNull)],
                   JObject [(''node_id'', JString ''2''), (''site_admin'', JArray [])]]))"
proof -
  have h: "collision_free (JArray [JObject [(''node_id'', JString ''1''), (''avatar-url'', JNull)],
                           JObject [(''node_id'', JString ''2''), (''site_admin'', JArray [])]] :: int json)"
    by code_simp
  show ?thesis by (intro conjI h toCamelCaseParser_same_shape[OF h])
qed

text \<open>
  Claim C2: the transformer rewrites a key by replacing each delimiter (hyphen or
  underscore) that a letter follows, together with that letter, by the upper-case letter
  (a lower-case letter moves down by 32 in the character code, an upper-case letter
  stays), and goes on behind the letter; a character that does not start such a pair,
  be it a delimiter that no letter follows, the first of two delimiters in a row or any
  other character, is copied, and the rewriting goes on with the next character, so that
  every occurrence in the key is replaced; a key without delimiters is unchanged; scalars
  are returned as they are; the empty array and the empty object are mapped to
  themselves; the transformer descends into the elements of an array and into the values
  of an object, whose keys are the rewritten keys of the input; and the example of the
  specification evaluates as stated, as do keys with several occurrences.
\<close>

theorem key_casing_rewrite:
  fixes kvs :: "(string \<times> 'n json) list"
  shows
  "(is_delim d \<and> is_letter c \<longrightarrow>
      camelCaseKey (d # c # cs) = upper_char c # camelCaseKey cs
      \<and> (of_char (upper_char c) :: nat)
          = (if 97 \<le> (of_char c :: nat) then of_char c - 32 else of_char c)
      \<and> 65 \<le> (of_char (upper_char c) :: nat) \<and> (of_char (upper_char c) :: nat) \<le> 90)
   \<and> (is_delim d' \<and> \<not> is_letter c' \<longrightarrow> camelCaseKey (d' # c' # cs') = d' # camelCaseKey (c' # cs'))
   \<and> camelCaseKey [d'] = [d']
   \<and> (list_all (\<lambda>x. \<not> is_delim x) k \<longrightarrow> camelCaseKey k = k)
   \<and> toCamelCaseParser JNull = (JNull :: 'n json)
   \<and> toCamelCaseParser (JBoolean b) = (JBoolean b :: 'n json)
   \<and> toCamelCaseParser (JNumber n) = (JNumber n :: 'n json)
   \<and> toCamelCaseParser (JString s) = (JString s :: 'n json)
   \<and> toCamelCaseParser (JArray []) = (JArray [] :: 'n json)
   \<and> toCamelCaseParser (JObject []) = (JObject [] :: 'n json)
   \<and> toCamelCaseParser (JArray xs) = (JArray (map toCamelCaseParser xs) :: 'n json)
   \<and> (\<exists>out. toCamelCaseParser (JObject kvs) = JObject out
         \<and> fst ` set out = camelCaseKey ` fst ` set kvs
         \<and> list_all (\<lambda>(k', v'). list_ex (\<lambda>(k, v). k' = camelCaseKey k \<and> v' = toCamelCaseParser v) kvs) out
         \<and> (distinct (map (\<lambda>(k, v). camelCaseKey k) kvs) \<longrightarrow>
              out = map (\<lambda>(k, v). (camelCaseKey k, toCamelCaseParser v)) kvs))
   \<and> toCamelCaseParser
        (JObject [(''site_admin'', JBoolean True), (''avatar-url'', JString ''x''),
                  (''nested_obj'', JObject [(''gravatar_id'', JString ''y'')])])
      = (JObject [(''siteAdmin'', JBoolean True), (''avatarUrl'', JString ''x''),
                  (''nestedObj'', JObject [(''gravatarId'', JString ''y'')])] :: 'n json)
   \<and> (\<not> (is_delim x \<and> is_letter y) \<longrightarrow> camelCaseKey (x # y # ys) = x # camelCaseKey (y # ys))
   \<and> (list_all (\<lambda>x. \<not> is_delim x) p \<and> is_delim h \<and> is_letter l \<longrightarrow>
        camelCaseKey (p @ h # l # ls) = p @ upper_char l # camelCaseKey ls)
   \<and> camelCaseKey [] = []
   \<and> camelCaseKey ''received_events_url'' = ''receivedEventsUrl''
   \<and> camelCaseKey ''a-b_c-D'' = ''aBCD''
   \<and> camelCaseKey ''x__y_1-z-'' = ''x_Y_1Z-''"
proof -
  have a: "is_delim d \<and> is_letter c \<longrightarrow>
      camelCaseKey (d # c # cs) = upper_char c # camelCaseKey cs
      \<and> (of_char (upper_char c) :: nat)
          = (if 97 \<le> (of_char c :: nat) then of_char c - 32 else of_char c)
      \<and> 65 \<le> (of_char (upper_char c) :: nat) \<and> (of_char (upper_char c) :: nat) \<le> 90"
    using camelCaseKey_match[of d c cs] upper_char_range[of c] upper_char_letter[of c] by blast
  have b: "is_delim d' \<and> \<not> is_letter c' \<longrightarrow> camelCaseKey (d' # c' # cs') = d' # camelCaseKey (c' # cs')"
    by simp
  have c: "list_all (\<lambda>x. \<not> is_delim x) k \<longrightarrow> camelCaseKey k = k"
    using camelCaseKey_no_match[OF no_delim_no_match] by blast
  obtain out where out: "toCamelCaseParser (JObject kvs) = JObject out" by simp
  have o: "\<exists>out. toCamelCaseParser (JObject kvs) = JObject out
         \<and> fst ` set out = camelCaseKey ` fst ` set kvs
         \<and> list_all (\<lambda>(k', v'). list_ex (\<lambda>(k, v). k' = camelCaseKey k \<and> v' = toCamelCaseParser v) kvs) out
         \<and> (distinct (map (\<lambda>(k, v). camelCaseKey k) kvs) \<longrightarrow>
              out = map (\<lambda>(k, v). (camelCaseKey k, toCamelCaseParser v)) kvs)"
    using out parser_object_keys[OF out] parser_object_origin[OF out]
      parser_object_collision_free[of kvs] by (intro exI[of _ out]) auto
  have s1: "camelCaseKey [d'] = [d']" by simp
  have s2: "toCamelCaseParser (JArray []) = (JArray [] :: 'n json)" by simp
  have s3: "toCamelCaseParser (JObject []) = (JObject [] :: 'n json)" by simp
  have g: "\<not> (is_delim x \<and> is_letter y) \<longrightarrow> camelCaseKey (x # y # ys) = x # camelCaseKey (y # ys)"
    by simp
  have f: "list_all (\<lambda>x. \<not> is_delim x) p \<and> is_delim h \<and> is_letter l \<longrightarrow>
        camelCaseKey (p @ h # l # ls) = p @ upper_char l # camelCaseKey ls"
    using camelCaseKey_prefix[of p h l ls] by blast
  have s4: "camelCaseKey [] = []" by simp
  show ?thesis
    by (intro conjI a b c o spec_example s1 s2 s3 g f s4 several_matches
        toCamelCaseParser.simps(1-5))
qed

theorem key_casing_rewrite_witness:
  "camelCaseKey ''_abc'' = ''Abc''
   \<and> (of_char (upper_char CHR ''a'') :: nat) = 65
   \<and> camelCaseKey ''__a'' = ''_A''
   \<and> camelCaseKey ''login'' = ''login''
   \<and> toCamelCaseParser (JArray [JObject [(''node_id'', JString ''1'')], JObject [(''node_id'', JString ''2'')]] :: int json)
       = JArray [JObject [(''nodeId'', JString ''1'')], JObject [(''nodeId'', JString ''2'')]]
   \<and> toCamelCaseParser (JObject [(''node_id'', JString ''1''), (''a-1'', JNull)] :: int json)
       = JObject [(''nodeId'', JString ''1''), (''a-1'', JNull)]
   \<and> camelCaseKey ''a_b'' = ''aB''
   \<and> camelCaseKey ''events_url_x'' = ''eventsUrlX''"
proof -
  have h1: "is_delim CHR ''_'' \<and> is_letter CHR ''a''" by code_simp
  have h2: "is_delim CHR ''_'' \<and> \<not> is_letter CHR ''_''" by code_simp
  have h3: "list_all (\<lambda>x. \<not> is_delim x) ''login''" by code_simp
  have h4: "distinct (map (\<lambda>(k, v). camelCaseKey k) [(''node_id'', JString ''1''), (''a-1'', JNull :: int json)])"
    by code_simp
  have h5: "\<not> (is_delim CHR ''a'' \<and> is_letter CHR ''_'')" by code_simp
  have h6: "list_all (\<lambda>x. \<not> is_delim x) ''events'' \<and> is_delim CHR ''_'' \<and> is_letter CHR ''u''"
    by code_simp
  have e0: "(if 97 \<le> (of_char CHR ''a'' :: nat) then of_char CHR ''a'' - 32 else of_char CHR ''a'')
            = (65 :: nat)"
    by simp
  have e1: "upper_char CHR ''a'' # camelCaseKey ''bc'' = ''Abc''" by code_simp
  have e2: "CHR ''_'' # camelCaseKey ''_a'' = ''_A''" by code_simp
  have e3: "map toCamelCaseParser [JObject [(''node_id'', JString ''1'')], JObject [(''node_id'', JString ''2'')] :: int json]
            = [JObject [(''nodeId'', JString ''1'')], JObject [(''nodeId'', JString ''2'')]]"
    by code_simp
  have e4: "map (\<lambda>(k, v). (camelCaseKey k, toCamelCaseParser v)) [(''node_id'', JString ''1''), (''a-1'', JNull :: int json)]
            = [(''nodeId'', JString ''1''), (''a-1'', JNull)]"
    by code_simp
  have e5: "CHR ''a'' # camelCaseKey ''_b'' = ''aB''" by code_simp
  have e6: "''events'' @ CHR ''_'' # CHR ''u'' # ''rl_x'' = ''events_url_x''" by simp
  have e7: "''events'' @ upper_char CHR ''u'' # camelCaseKey ''rl_x'' = ''eventsUrlX''" by code_simp
  note t = key_casing_rewrite[where d = "CHR ''_''" and c = "CHR ''a''" and cs = "''bc''"
      and d' = "CHR ''_''" and c' = "CHR ''_''" and cs' = "''a''" and k = "''login''"
      and xs = "[JObject [(''node_id'', JString ''1'')], JObject [(''node_id'', JString ''2'')]]"
      and kvs = "[(''node_id'', JString ''1''), (''a-1'', JNull :: int json)]"
      and x = "CHR ''a''" and y = "CHR ''_''" and ys = "''b''"
      and p = "''events''" and h = "CHR ''_''" and l = "CHR ''u''" and ls = "''rl_x''"]
  note t1 = t[THEN conjunct1, THEN mp, OF h1]
  have w1: "camelCaseKey ''_abc'' = ''Abc''"
    using t1[THEN conjunct1] unfolding e1 .
  have w1': "(of_char (upper_char CHR ''a'') :: nat) = 65"
    using t1[THEN conjunct2, THEN conjunct1] unfolding e0 .
  have w2: "camelCaseKey ''__a'' = ''_A''"
    using t[THEN conjunct2, THEN conjunct1] h2 unfolding e2 by (rule mp)
  have w4: "camelCaseKey ''login'' = ''login''"
    using t[THEN conjunct2, THEN conjunct2, THEN conjunct2, THEN conjunct1] h3 by (rule mp)
  have w5: "toCamelCaseParser (JArray [JObject [(''node_id'', JString ''1'')], JObject [(''node_id'', JString ''2'')]] :: int json)
       = JArray [JObject [(''nodeId'', JString ''1'')], JObject [(''nodeId'', JString ''2'')]]"
    using t[THEN conjunct2, THEN conjunct2, THEN conjunct2, THEN conjunct2, THEN conjunct2,
        THEN conjunct2, THEN conjunct2, THEN conjunct2, THEN conjunct2, THEN conjunct2, THEN conjunct1]
    unfolding e3 .
  note t12 = t[THEN conjunct2, THEN conjunct2, THEN conjunct2, THEN conjunct2, THEN conjunct2,
        THEN conjunct2, THEN conjunct2, THEN conjunct2, THEN conjunct2, THEN conjunct2, THEN conjunct2]
  obtain out where o1: "toCamelCaseParser (JObject [(''node_id'', JString ''1''), (''a-1'', JNull)] :: int json) = JObject out"
    and o2: "distinct (map (\<lambda>(k, v). camelCaseKey k) [(''node_id'', JString ''1''), (''a-1'', JNull :: int json)]) \<longrightarrow>
              out = map (\<lambda>(k, v). (camelCaseKey k, toCamelCaseParser v)) [(''node_id'', JString ''1''), (''a-1'', JNull :: int json)]"
    using t12[THEN conjunct1]
    by blast
  have "out = [(''nodeId'', JString ''1''), (''a-1'', JNull)]"
    using o2 h4 unfolding e4 by (rule mp)
  with o1 have w6: "toCamelCaseParser (JObject [(''node_id'', JString ''1''), (''a-1'', JNull)] :: int json)
       = JObject [(''nodeId'', JString ''1''), (''a-1'', JNull)]"
    by (simp only:)
  have w7: "camelCaseKey ''a_b'' = ''aB''"
    using t12[THEN conjunct2, THEN conjunct2, THEN conjunct1, THEN mp, OF h5] unfolding e5 .
  have w8: "camelCaseKey ''events_url_x'' = ''eventsUrlX''"
    using t12[THEN conjunct2, THEN conjunct2, THEN conjunct2, THEN conjunct1, THEN mp, OF h6]
    unfolding e6 e7 .
  show ?thesis by (intro conjI w1 w1' w2 w4 w5 w6 w7 w8)
qed

text \<open>
  Claim C7: on a value whose keys, at every level, hold no delimiter followed by a
  letter, applying the transformer twice gives the result of applying it once.
\<close>

theorem toCamelCaseParser_idempotent:
  "camel_cased V \<Longrightarrow> toCamelCaseParser (toCamelCaseParser V) = toCamelCaseParser V"
  by (rule toCamelCaseParser_fixed[OF wf_toCamelCaseParser camel_cased_toCamelCaseParser])

theorem toCamelCaseParser_idempotent_witness:
  "camel_cased (JObject [(''siteAdmin'', JBoolean True),
                         (''nestedObj'', JArray [JObject [(''gravatarId'', JString ''y'')]])] :: int json)
   \<and> toCamelCaseParser (toCamelCaseParser
        (JObject [(''siteAdmin'', JBoolean True),
                  (''nestedObj'', JArray [JObject [(''gravatarId'', JString ''y'')]])] :: int json))
     = toCamelCaseParser
        (JObject [(''siteAdmin'', JBoolean True),
                  (''nestedObj'', JArray [JObject [(''gravatarId'', JString ''y'')]])])"
proof -
  have h: "camel_cased (JObject [(''siteAdmin'', JBoolean True),
                         (''nestedObj'', JArray [JObject [(''gravatarId'', JString ''y'')]])] :: int json)"
    by code_simp
  show ?thesis by (intro conjI h toCamelCaseParser_idempotent[OF h])
qed

text \<open>
  Claim C9: when two different keys of one input object are rewritten to the same key
  \<open>K\<close>, the output object holds \<open>K\<close> exactly once, bound to the transformed value
  of the last input property, in the order of \<open>Object.keys\<close>, whose key is rewritten
  to \<open>K\<close>; the output object has fewer keys than the input object.
\<close>

theorem key_collision_last_wins:
  assumes dist: "distinct (map fst kvs)"
    and m1: "(k1, v1) \<in> set kvs" and m2: "(k2, v2) \<in> set kvs" and ne: "k1 \<noteq> k2"
    and c1: "camelCaseKey k1 = K" and c2: "camelCaseKey k2 = K"
  shows "\<exists>out. toCamelCaseParser (JObject kvs) = JObject out
           \<and> count_list (map fst out) K = 1
           \<and> map_of out K =
               Some (toCamelCaseParser (snd (last (filter (\<lambda>(k, v). camelCaseKey k = K) kvs))))
           \<and> length out < length kvs"
proof -
  let ?g = "\<lambda>(key, v). (camelCaseKey key, toCamelCaseParser v)"
  obtain out where out: "toCamelCaseParser (JObject kvs) = JObject out" by simp
  have d: "distinct (map fst out)" by (rule parser_object_distinct[OF out])
  have keys: "fst ` set out = camelCaseKey ` fst ` set kvs" by (rule parser_object_keys[OF out])
  have "K \<in> fst ` set out" unfolding keys using m1 c1 by force
  then have once: "count_list (map fst out) K = 1" using d by (simp add: count_list_distinct)
  have flt: "filter (\<lambda>e. fst e = K) (map ?g kvs) = map ?g (filter (\<lambda>(k, v). camelCaseKey k = K) kvs)"
    by (induction kvs) (auto split: prod.splits)
  have nonempty: "filter (\<lambda>(k, v). camelCaseKey k = K) kvs \<noteq> []"
    using m1 c1 by (auto simp: filter_empty_conv)
  have "map_of out K = map_of (rev (map ?g kvs)) K" by (simp add: parser_object_map_of[OF out])
  also have "\<dots> = Some (snd (last (filter (\<lambda>e. fst e = K) (map ?g kvs))))"
    by (rule map_of_rev_last) (simp add: flt nonempty)
  also have "\<dots> = Some (toCamelCaseParser (snd (last (filter (\<lambda>(k, v). camelCaseKey k = K) kvs))))"
    unfolding flt using nonempty by (simp add: last_map split: prod.splits)
  finally have bound: "map_of out K =
      Some (toCamelCaseParser (snd (last (filter (\<lambda>(k, v). camelCaseKey k = K) kvs))))" .
  have "k1 \<in> fst ` set kvs" "k2 \<in> fst ` set kvs" using m1 m2 by force+
  then have "\<not> inj_on camelCaseKey (fst ` set kvs)"
    using ne c1 c2 inj_onD[of camelCaseKey "fst ` set kvs" k1 k2] by auto
  then have "card (camelCaseKey ` fst ` set kvs) \<noteq> card (fst ` set kvs)"
    using eq_card_imp_inj_on[of "fst ` set kvs" camelCaseKey] by auto
  moreover have "card (camelCaseKey ` fst ` set kvs) \<le> card (fst ` set kvs)"
    by (simp add: card_image_le)
  ultimately have "card (fst ` set out) < card (fst ` set kvs)" unfolding keys by simp
  moreover have "card (fst ` set out) = length out" using distinct_card[OF d] by simp
  moreover have "card (fst ` set kvs) = length kvs" using distinct_card[OF dist] by simp
  ultimately have "length out < length kvs" by simp
  with out once bound show ?thesis by blast
qed

theorem key_collision_last_wins_witness:
  "distinct (map fst [(''a_b'', JString ''first''), (''x'', JNull), (''a-b'', JString ''last'' :: int json)])
   \<and> camelCaseKey ''a_b'' = ''aB'' \<and> camelCaseKey ''a-b'' = ''aB''
   \<and> toCamelCaseParser
        (JObject [(''a_b'', JString ''first''), (''x'', JNull), (''a-b'', JString ''last'')] :: int json)
      = JObject [(''aB'', JString ''last''), (''x'', JNull)]
   \<and> (\<exists>out. toCamelCaseParser
          (JObject [(''a_b'', JString ''first''), (''x'', JNull), (''a-b'', JString ''last'')] :: int json)
            = JObject out
        \<and> count_list (map fst out) ''aB'' = 1
        \<and> map_of out ''aB'' = Some (JString ''last'')
        \<and> length out < 3)"
proof -
  let ?kvs = "[(''a_b'', JString ''first''), (''x'', JNull), (''a-b'', JString ''last'')]
                :: (string \<times> int json) list"
  have h1: "distinct (map fst ?kvs)" by simp
  have h2: "(''a_b'', JString ''first'') \<in> set ?kvs" by simp
  have h3: "(''a-b'', JString ''last'') \<in> set ?kvs" by simp
  have h4: "''a_b'' \<noteq> ''a-b''" by simp
  have h5: "camelCaseKey ''a_b'' = ''aB''" by code_simp
  have h6: "camelCaseKey ''a-b'' = ''aB''" by code_simp
  have e: "toCamelCaseParser (JObject ?kvs) = JObject [(''aB'', JString ''last''), (''x'', JNull)]"
    by code_simp
  have l: "toCamelCaseParser (snd (last (filter (\<lambda>(k, v). camelCaseKey k = ''aB'') ?kvs)))
           = JString ''last''"
    by code_simp
  have n: "length ?kvs = 3" by simp
  from key_collision_last_wins[OF h1 h2 h3 h4 h5 h6]
  have "\<exists>out. toCamelCaseParser (JObject ?kvs) = JObject out
        \<and> count_list (map fst out) ''aB'' = 1
        \<and> map_of out ''aB'' = Some (JString ''last'')
        \<and> length out < 3"
    unfolding l n .
  then show ?thesis by (intro conjI h1 h5 h6 e)
qed

section \<open>Claims about validation and the routes\<close>

text \<open>
  Claim C3: on the list/search endpoint the rules of \<open>sort\<close>, \<open>order\<close> and \<open>page\<close>
  are evaluated only when \<open>search\<close> is present, and the rule of \<open>since\<close> only when
  \<open>search\<close> is absent. A rule whose guard is false yields no failure whatever the
  value of its parameter, and the failures of the whole request do not depend on that
  value; a rule whose guard holds rejects a bad value.
\<close>

theorem guarded_rules_skipped:
  "(query req ''search'' = None \<longrightarrow>
        snd (run False (build sort_chain) req) = []
      \<and> snd (run False (build order_chain) req) = []
      \<and> snd (run False (build page_chain) req) = []
      \<and> validationResult users_validators (req\<lparr>query := (query req)(''sort'' := x)\<rparr>)
          = validationResult users_validators req
      \<and> validationResult users_validators (req\<lparr>query := (query req)(''order'' := x)\<rparr>)
          = validationResult users_validators req
      \<and> validationResult users_validators (req\<lparr>query := (query req)(''page'' := x)\<rparr>)
          = validationResult users_validators req)
   \<and> (query req ''search'' \<noteq> None \<longrightarrow>
        snd (run False (build since_chain) req) = []
      \<and> validationResult users_validators (req\<lparr>query := (query req)(''since'' := x)\<rparr>)
          = validationResult users_validators req)
   \<and> (query req ''search'' \<noteq> None \<and> query req ''sort'' \<noteq> None
        \<and> toString (query req ''sort'') \<notin> set [''followers'', ''repositories'', ''joined''] \<longrightarrow>
        snd (run False (build sort_chain) req) =
          [\<lparr>err_value = query req ''sort'',
            err_msg = ''sort must be one of the following values: followers, repositories, joined'',
            err_param = ''sort'', err_location = Query\<rparr>])
   \<and> (query req ''search'' \<noteq> None \<and> query req ''order'' \<noteq> None
        \<and> toString (query req ''order'') \<notin> set [''asc'', ''desc''] \<longrightarrow>
        snd (run False (build order_chain) req) =
          [\<lparr>err_value = query req ''order'',
            err_msg = ''order must be one of the following values: asc, desc'',
            err_param = ''order'', err_location = Query\<rparr>])
   \<and> (query req ''search'' \<noteq> None \<and> query req ''page'' \<noteq> None
        \<and> \<not> isInt (Some 1) None (toString (query req ''page'')) \<longrightarrow>
        snd (run False (build page_chain) req) =
          [\<lparr>err_value = query req ''page'',
            err_msg = ''page must be an integer greater than 0'',
            err_param = ''page'', err_location = Query\<rparr>])
   \<and> (query req ''search'' = None \<and> query req ''since'' \<noteq> None
        \<and> \<not> isInt (Some 0) None (toString (query req ''since'')) \<longrightarrow>
        snd (run False (build since_chain) req) =
          [\<lparr>err_value = query req ''since'',
            err_msg = ''since must be an integer greater than 0'',
            err_param = ''since'', err_location = Query\<rparr>])"
proof -
  have a: "query req ''search'' = None \<longrightarrow>
        snd (run False (build sort_chain) req) = []
      \<and> snd (run False (build order_chain) req) = []
      \<and> snd (run False (build page_chain) req) = []
      \<and> validationResult users_validators (req\<lparr>query := (query req)(''sort'' := x)\<rparr>)
          = validationResult users_validators req
      \<and> validationResult users_validators (req\<lparr>query := (query req)(''order'' := x)\<rparr>)
          = validationResult users_validators req
      \<and> validationResult users_validators (req\<lparr>query := (query req)(''page'' := x)\<rparr>)
          = validationResult users_validators req"
    using validation_guarded_irrelevant[of req]
    by (simp add: run_sort run_order run_page)
  have b: "query req ''search'' \<noteq> None \<longrightarrow>
        snd (run False (build since_chain) req) = []
      \<and> validationResult users_validators (req\<lparr>query := (query req)(''since'' := x)\<rparr>)
          = validationResult users_validators req"
    using validation_since_irrelevant[of req] by (simp add: run_since)
  have c: "query req ''search'' \<noteq> None \<and> query req ''sort'' \<noteq> None
        \<and> toString (query req ''sort'') \<notin> set [''followers'', ''repositories'', ''joined''] \<longrightarrow>
        snd (run False (build sort_chain) req) =
          [\<lparr>err_value = query req ''sort'',
            err_msg = ''sort must be one of the following values: followers, repositories, joined'',
            err_param = ''sort'', err_location = Query\<rparr>]"
    unfolding run_sort by (simp del: toString.simps)
  have d: "query req ''search'' \<noteq> None \<and> query req ''order'' \<noteq> None
        \<and> toString (query req ''order'') \<notin> set [''asc'', ''desc''] \<longrightarrow>
        snd (run False (build order_chain) req) =
          [\<lparr>err_value = query req ''order'',
            err_msg = ''order must be one of the following values: asc, desc'',
            err_param = ''order'', err_location = Query\<rparr>]"
    unfolding run_order by (simp del: toString.simps)
  have e: "query req ''search'' \<noteq> None \<and> query req ''page'' \<noteq> None
        \<and> \<not> isInt (Some 1) None (toString (query req ''page'')) \<longrightarrow>
        snd (run False (build page_chain) req) =
          [\<lparr>err_value = query req ''page'',
            err_msg = ''page must be an integer greater than 0'',
            err_param = ''page'', err_location = Query\<rparr>]"
    unfolding run_page by (simp del: toString.simps)
  have f: "query req ''search'' = None \<and> query req ''since'' \<noteq> None
        \<and> \<not> isInt (Some 0) None (toString (query req ''since'')) \<longrightarrow>
        snd (run False (build since_chain) req) =
          [\<lparr>err_value = query req ''since'',
            err_msg = ''since must be an integer greater than 0'',
            err_param = ''since'', err_location = Query\<rparr>]"
    unfolding run_since by (simp del: toString.simps)
  show ?thesis by (intro conjI a b c d e f)
qed

theorem guarded_rules_skipped_witness:
  "snd (run False (build sort_chain)
         \<lparr>query = [''sort'' \<mapsto> PString ''followers-desc'', ''since'' \<mapsto> PString ''x''],
          params = Map.empty, accepts_html = False\<rparr>) = []
   \<and> validationResult users_validators
        \<lparr>query = [''sort'' \<mapsto> PString ''followers-desc'', ''since'' \<mapsto> PString ''x''],
         params = Map.empty, accepts_html = False\<rparr>
      = validationResult users_validators
          \<lparr>query = [''since'' \<mapsto> PString ''x''], params = Map.empty, accepts_html = False\<rparr>
   \<and> snd (run False (build since_chain)
         \<lparr>query = [''sort'' \<mapsto> PString ''followers-desc'', ''since'' \<mapsto> PString ''x''],
          params = Map.empty, accepts_html = False\<rparr>)
      = [\<lparr>err_value = Some (PString ''x''),
          err_msg = ''since must be an integer greater than 0'',
          err_param = ''since'', err_location = Query\<rparr>]
   \<and> snd (run False (build since_chain)
         \<lparr>query = [''search'' \<mapsto> PString ''alice'', ''sort'' \<mapsto> PString ''stars'',
                   ''order'' \<mapsto> PString ''up'', ''page'' \<mapsto> PString ''0'',
                   ''since'' \<mapsto> PString ''x''],
          params = Map.empty, accepts_html = False\<rparr>) = []
   \<and> snd (run False (build sort_chain)
         \<lparr>query = [''search'' \<mapsto> PString ''alice'', ''sort'' \<mapsto> PString ''stars'',
                   ''order'' \<mapsto> PString ''up'', ''page'' \<mapsto> PString ''0'',
                   ''since'' \<mapsto> PString ''x''],
          params = Map.empty, accepts_html = False\<rparr>)
      = [\<lparr>err_value = Some (PString ''stars''),
          err_msg = ''sort must be one of the following values: followers, repositories, joined'',
          err_param = ''sort'', err_location = Query\<rparr>]
   \<and> snd (run False (build order_chain)
         \<lparr>query = [''search'' \<mapsto> PString ''alice'', ''sort'' \<mapsto> PString ''stars'',
                   ''order'' \<mapsto> PString ''up'', ''page'' \<mapsto> PString ''0'',
                   ''since'' \<mapsto> PString ''x''],
          params = Map.empty, accepts_html = False\<rparr>)
      = [\<lparr>err_value = Some (PString ''up''),
          err_msg = ''order must be one of the following values: asc, desc'',
          err_param = ''order'', err_location = Query\<rparr>]
   \<and> snd (run False (build page_chain)
         \<lparr>query = [''search'' \<mapsto> PString ''alice'', ''sort'' \<mapsto> PString ''stars'',
                   ''order'' \<mapsto> PString ''up'', ''page'' \<mapsto> PString ''0'',
                   ''since'' \<mapsto> PString ''x''],
          params = Map.empty, accepts_html = False\<rparr>)
      = [\<lparr>err_value = Some (PString ''0''),
          err_msg = ''page must be an integer greater than 0'',
          err_param = ''page'', err_location = Query\<rparr>]"
proof -
  let ?r0 = "\<lparr>query = [''since'' \<mapsto> PString ''x''], params = Map.empty, accepts_html = False\<rparr>"
  let ?r1 = "\<lparr>query = [''sort'' \<mapsto> PString ''followers-desc'', ''since'' \<mapsto> PString ''x''],
              params = Map.empty, accepts_html = False\<rparr>"
  let ?r2 = "\<lparr>query = [''search'' \<mapsto> PString ''alice'', ''sort'' \<mapsto> PString ''stars'',
                       ''order'' \<mapsto> PString ''up'', ''page'' \<mapsto> PString ''0'',
                       ''since'' \<mapsto> PString ''x''],
              params = Map.empty, accepts_html = False\<rparr>"
  have u: "?r1 = ?r0\<lparr>query := (query ?r0)(''sort'' := Some (PString ''followers-desc''))\<rparr>"
    by (simp add: fun_upd_twist)
  have h0: "query ?r0 ''search'' = None" by simp
  have h1: "query ?r1 ''search'' = None" by simp
  have h1f: "query ?r1 ''search'' = None \<and> query ?r1 ''since'' \<noteq> None
            \<and> \<not> isInt (Some 0) None (toString (query ?r1 ''since''))"
    by (simp add: isInt_examples)
  have h2: "query ?r2 ''search'' \<noteq> None" by simp
  have h3: "query ?r2 ''search'' \<noteq> None \<and> query ?r2 ''sort'' \<noteq> None
            \<and> toString (query ?r2 ''sort'') \<notin> set [''followers'', ''repositories'', ''joined'']"
    by simp
  have h4: "query ?r2 ''search'' \<noteq> None \<and> query ?r2 ''order'' \<noteq> None
            \<and> toString (query ?r2 ''order'') \<notin> set [''asc'', ''desc'']"
    by simp
  have h5: "query ?r2 ''search'' \<noteq> None \<and> query ?r2 ''page'' \<noteq> None
            \<and> \<not> isInt (Some 1) None (toString (query ?r2 ''page''))"
    by (simp add: isInt_examples)
  have v1: "query ?r1 ''since'' = Some (PString ''x'')" by simp
  have v2: "query ?r2 ''sort'' = Some (PString ''stars'')" "query ?r2 ''order'' = Some (PString ''up'')"
    "query ?r2 ''page'' = Some (PString ''0'')" by simp_all
  note t0 = guarded_rules_skipped[of ?r0 "Some (PString ''followers-desc'')"]
  note t1 = guarded_rules_skipped[of ?r1 None]
  note t2 = guarded_rules_skipped[of ?r2 None]
  have w1: "snd (run False (build sort_chain) ?r1) = []"
    using t1[THEN conjunct1, THEN mp, OF h1] by (rule conjunct1)
  have w2: "validationResult users_validators ?r1 = validationResult users_validators ?r0"
    using t0[THEN conjunct1, THEN mp, OF h0, THEN conjunct2, THEN conjunct2, THEN conjunct2,
        THEN conjunct1]
    unfolding u .
  have w3: "snd (run False (build since_chain) ?r1)
      = [\<lparr>err_value = Some (PString ''x''),
          err_msg = ''since must be an integer greater than 0'',
          err_param = ''since'', err_location = Query\<rparr>]"
    using t1[THEN conjunct2, THEN conjunct2, THEN conjunct2, THEN conjunct2, THEN conjunct2,
        THEN mp, OF h1f]
    unfolding v1 .
  have w4: "snd (run False (build since_chain) ?r2) = []"
    using t2[THEN conjunct2, THEN conjunct1, THEN mp, OF h2] by (rule conjunct1)
  have w5: "snd (run False (build sort_chain) ?r2)
      = [\<lparr>err_value = Some (PString ''stars''),
          err_msg = ''sort must be one of the following values: followers, repositories, joined'',
          err_param = ''sort'', err_location = Query\<rparr>]"
    using t2[THEN conjunct2, THEN conjunct2, THEN conjunct1, THEN mp, OF h3]
    unfolding v2 .
  have w6: "snd (run False (build order_chain) ?r2)
      = [\<lparr>err_value = Some (PString ''up''),
          err_msg = ''order must be one of the following values: asc, desc'',
          err_param = ''order'', err_location = Query\<rparr>]"
    using t2[THEN conjunct2, THEN conjunct2, THEN conjunct2, THEN conjunct1, THEN mp, OF h4]
    unfolding v2 .
  have w7: "snd (run False (build page_chain) ?r2)
      = [\<lparr>err_value = Some (PString ''0''),
          err_msg = ''page must be an integer greater than 0'',
          err_param = ''page'', err_location = Query\<rparr>]"
    using t2[THEN conjunct2, THEN conjunct2, THEN conjunct2, THEN conjunct2, THEN conjunct1,
        THEN mp, OF h5]
    unfolding v2 .
  show ?thesis by (intro conjI w1 w2 w3 w4 w5 w6 w7)
qed

text \<open>
  Claim C4: validation runs every chain of the route, whatever the others found: the
  result is the failures of each chain, in order. When there is at least one failure the
  response has status 400, its body lists every failure with its value, message,
  parameter and location, and no upstream call is made.
\<close>

theorem validation_failures_answered:
  "validationResult users_validators req =
     concat (map (\<lambda>c. snd (run False (build c) req)) users_validators)
   \<and> validationResult user_validators req =
     concat (map (\<lambda>c. snd (run False (build c) req)) user_validators)
   \<and> (validationResult users_validators req \<noteq> [] \<longrightarrow>
        users_route node_status octokit req =
          \<lparr>calls = [],
           response = Some \<lparr>statusCode = 400, location_header = None,
                             body = Some (Errors (validationResult users_validators req))\<rparr>\<rparr>)
   \<and> (validationResult user_validators req \<noteq> [] \<longrightarrow>
        user_route node_status octokit req =
          \<lparr>calls = [],
           response = Some \<lparr>statusCode = 400, location_header = None,
                             body = Some (Errors (validationResult user_validators req))\<rparr>\<rparr>)"
  using users_all_chains[of req] user_all_chains[of req]
    users_route_rejected[of req node_status octokit]
    user_route_rejected[of req node_status octokit]
  by blast

theorem validation_failures_answered_witness:
  "validationResult users_validators
     \<lparr>query = [''perPage'' \<mapsto> PString ''101'', ''search'' \<mapsto> PString ''ab''],
      params = Map.empty, accepts_html = False\<rparr>
   = [\<lparr>err_value = Some (PString ''101''),
        err_msg = ''perPage must be an integer between 1 and 100'',
        err_param = ''perPage'', err_location = Query\<rparr>,
      \<lparr>err_value = Some (PString ''ab''),
        err_msg = ''search must be a string with at least 3 characters'',
        err_param = ''search'', err_location = Query\<rparr>]
   \<and> users_route int_status (\<lambda>c. Resolved (JArray []))
        \<lparr>query = [''perPage'' \<mapsto> PString ''101'', ''search'' \<mapsto> PString ''ab''],
         params = Map.empty, accepts_html = False\<rparr>
     = \<lparr>calls = [],
        response = Some \<lparr>statusCode = 400, location_header = None,
          body = Some (Errors
            [\<lparr>err_value = Some (PString ''101''),
               err_msg = ''perPage must be an integer between 1 and 100'',
               err_param = ''perPage'', err_location = Query\<rparr>,
             \<lparr>err_value = Some (PString ''ab''),
               err_msg = ''search must be a string with at least 3 characters'',
               err_param = ''search'', err_location = Query\<rparr>])\<rparr>\<rparr>"
proof -
  let ?req = "\<lparr>query = [''perPage'' \<mapsto> PString ''101'', ''search'' \<mapsto> PString ''ab''],
               params = Map.empty, accepts_html = False\<rparr>"
  let ?octokit = "\<lambda>c. Resolved (JArray []) :: int upstream_result"
  let ?errors = "[\<lparr>err_value = Some (PString ''101''),
        err_msg = ''perPage must be an integer between 1 and 100'',
        err_param = ''perPage'', err_location = Query\<rparr>,
      \<lparr>err_value = Some (PString ''ab''),
        err_msg = ''search must be a string with at least 3 characters'',
        err_param = ''search'', err_location = Query\<rparr>]"
  note t = validation_failures_answered[of ?req int_status ?octokit]
  have e: "concat (map (\<lambda>c. snd (run False (build c) ?req)) users_validators) = ?errors"
    by (simp add: users_validators_def run_perPage run_since run_search run_sort run_order
        run_page isInt_examples)
  have v: "validationResult users_validators ?req = ?errors"
    using t[THEN conjunct1] unfolding e .
  have ne: "?errors \<noteq> []" by simp
  have r: "users_route int_status ?octokit ?req =
      \<lparr>calls = [],
       response = Some \<lparr>statusCode = 400, location_header = None, body = Some (Errors ?errors)\<rparr>\<rparr>"
    using t[THEN conjunct2, THEN conjunct2, THEN conjunct1] ne unfolding v by (rule mp)
  show ?thesis by (intro conjI v r)
qed



text \<open>
  Claim C6: every validated list/search request makes exactly one upstream call, to the
  list operation with \<open>since\<close> and \<open>per_page\<close> when \<open>search\<close> is absent and to
  the search operation with the composed query, \<open>sort\<close>, \<open>order\<close>, \<open>page\<close> and
  \<open>per_page\<close> otherwise, \<open>per_page\<close> being 30 when \<open>perPage\<close> is absent. The
  code departs from it in the last point: the request without parameters passes
  validation and its one call, \<open>GET /users\<close>, is made with \<open>per_page\<close> undefined.
  The mark \<open>optional()\<close> keeps the absent field from every item of the chain,
  \<open>default(30)\<close> included.
\<close>

theorem per_page_absent_not_defaulted:
  "validationResult users_validators \<lparr>query = Map.empty, params = Map.empty, accepts_html = a\<rparr> = []
   \<and> calls (users_route node_status octokit
               \<lparr>query = Map.empty, params = Map.empty, accepts_html = a\<rparr>)
       = [GET_users None None]"
proof -
  let ?req = "\<lparr>query = Map.empty, params = Map.empty, accepts_html = a\<rparr>"
  have v: "validationResult users_validators ?req = []"
    unfolding validationResult_def run_users_validators
    by (simp add: run_perPage run_since run_search run_sort run_order run_page)
  show ?thesis
    using v users_route_accepted[OF v, of node_status octokit]
    by (simp add: Let_def split: upstream_result.splits)
qed

text \<open>
  Claim C8, as stated: every request that no route matches is answered with status 404.
  A caller that accepts HTML refutes it: \<open>res.redirect('/docs')\<close> replaces the status
  that \<open>res.status(404)\<close> had set by 302.
\<close>

theorem not_found_html_counterexample:
  "statusCode (not_found \<lparr>query = Map.empty, params = Map.empty, accepts_html = True\<rparr>
                :: int response) = 302
   \<and> statusCode (not_found \<lparr>query = Map.empty, params = Map.empty, accepts_html = True\<rparr>
                :: int response) \<noteq> 404"
  by (simp add: not_found_def res_status_def res_redirect_def new_response_def)

text \<open>
  Claim C8, amended: a request that no route matches is answered, when the caller
  accepts HTML, with a redirect to \<open>/docs\<close> (status 302), and otherwise with status
  404 and the JSON body \<open>{"error": "Resource isn't found"}\<close>.
\<close>

theorem not_found_answers:
  "not_found req =
     (if accepts_html req
      then \<lparr>statusCode = 302, location_header = Some ''/docs'',
            body = Some (Redirecting ''/docs'')\<rparr>
      else \<lparr>statusCode = 404, location_header = None,
            body = Some (Error ''Resource isn't found'')\<rparr>)"
  by (simp add: not_found_def res_status_def res_redirect_def res_json_def new_response_def)

text \<open>
  Claim C10: on the list/search endpoint, when \<open>search\<close> is present, two requests
  that differ in \<open>since\<close> alone make the same upstream call and get the same response.
\<close>

theorem since_ignored_with_search:
  assumes "query req ''search'' \<noteq> None"
  shows "users_route node_status octokit (req\<lparr>query := (query req)(''since'' := x)\<rparr>)
       = users_route node_status octokit (req\<lparr>query := (query req)(''since'' := y)\<rparr>)"
proof -
  let ?r1 = "req\<lparr>query := (query req)(''since'' := x)\<rparr>"
  let ?r2 = "req\<lparr>query := (query req)(''since'' := y)\<rparr>"
  have v: "validationResult users_validators ?r1 = validationResult users_validators ?r2"
    using validation_since_irrelevant[OF assms] by simp
  show ?thesis
  proof (cases "validationResult users_validators ?r1 = []")
    case True
    then have "validationResult users_validators ?r2 = []" using v by simp
    from users_route_accepted[OF True, of node_status octokit]
      users_route_accepted[OF this, of node_status octokit] assms
    show ?thesis by (simp del: toString.simps)
  next
    case False
    then have "validationResult users_validators ?r2 \<noteq> []" using v by simp
    from users_route_rejected[OF False, of node_status octokit]
      users_route_rejected[OF this, of node_status octokit] v
    show ?thesis by simp
  qed
qed

theorem since_ignored_with_search_witness:
  "query \<lparr>query = [''search'' \<mapsto> PString ''alice''], params = Map.empty, accepts_html = False\<rparr>
     ''search'' \<noteq> None
   \<and> users_route int_status (\<lambda>c. Resolved (JArray []))
        (\<lparr>query = [''search'' \<mapsto> PString ''alice''], params = Map.empty, accepts_html = False\<rparr>
           \<lparr>query := [''search'' \<mapsto> PString ''alice''](''since'' := Some (PString ''minus one''))\<rparr>)
     = users_route int_status (\<lambda>c. Resolved (JArray []))
        (\<lparr>query = [''search'' \<mapsto> PString ''alice''], params = Map.empty, accepts_html = False\<rparr>
           \<lparr>query := [''search'' \<mapsto> PString ''alice''](''since'' := None)\<rparr>)"
proof -
  let ?req = "\<lparr>query = [''search'' \<mapsto> PString ''alice''], params = Map.empty,
               accepts_html = False\<rparr>"
  have h: "query ?req ''search'' \<noteq> None" by simp
  have q: "query ?req = [''search'' \<mapsto> PString ''alice'']" by simp
  from since_ignored_with_search[OF h, of int_status "\<lambda>c. Resolved (JArray [])"
      "Some (PString ''minus one'')" None]
  have "users_route int_status (\<lambda>c. Resolved (JArray []))
          (?req\<lparr>query := [''search'' \<mapsto> PString ''alice''](''since'' := Some (PString ''minus one''))\<rparr>)
        = users_route int_status (\<lambda>c. Resolved (JArray []))
          (?req\<lparr>query := [''search'' \<mapsto> PString ''alice''](''since'' := None)\<rparr>)"
    unfolding q .
  with h show ?thesis by (rule conjI)
qed

end
